theory Spec2Isabelle
  imports Main
begin

section \<open>JavaScript values and the operators the chat module applies to them\<close>

text \<open>
  The module under study is \<^verbatim>\<open>src/js/chat.js\<close>: StorageManager, StreamProcessor,
  ChatAPIClient and ChatController.  Text is modelled by \<^typ>\<open>string\<close>; a character stands
  for one code unit below 256.  A value produced by JSON.parse is a \<open>jsval\<close>; the type
  parameter \<open>'n\<close> is the type of numbers, whose arithmetic and printing belong to the
  JavaScript engine and are taken from the runtime record below.
\<close>

datatype 'n jsval =
    JUndefined
  | JNull
  | JBool bool
  | JNum 'n
  | JStr string
  | JArr "'n jsval list"
  | JObj "(string \<times> 'n jsval) list"

text \<open>
  Exceptions.  Only the message of an exception is ever inspected by the module
  (\<^verbatim>\<open>error.message === '401'\<close>), so an exception raised by \<^verbatim>\<open>fetch\<close> or by the stream
  reader is represented by \<open>Error\<close> with its message.  \<open>SaveKeyError\<close> is the
  \<^verbatim>\<open>new Error(...)\<close> raised by saveApiKey, whose message is a fixed non-ASCII sentence.
\<close>

datatype js_error = SyntaxError | TypeError | DOMException | Error string | SaveKeyError

text \<open>
  What the module uses from the engine: JSON.parse (\<open>None\<close> when it throws SyntaxError),
  JSON.stringify, and the number operations reached by \<^verbatim>\<open>+\<close>, by ToString and by
  truthiness tests.
\<close>

record 'n js_runtime =
  JSON_parse :: "string \<Rightarrow> 'n jsval option"
  JSON_stringify :: "'n jsval \<Rightarrow> string"
  Number_add :: "'n \<Rightarrow> 'n \<Rightarrow> 'n"
  Number_toString :: "'n \<Rightarrow> string"
  Number_truthy :: "'n \<Rightarrow> bool"
  Number_one :: 'n
  Number_zero :: 'n
  Number_NaN :: 'n

fun truthy :: "'n js_runtime \<Rightarrow> 'n jsval \<Rightarrow> bool" where
  "truthy rt JUndefined = False"
| "truthy rt JNull = False"
| "truthy rt (JBool b) = b"
| "truthy rt (JNum n) = Number_truthy rt n"
| "truthy rt (JStr s) = (s \<noteq> [])"
| "truthy rt (JArr xs) = True"
| "truthy rt (JObj fs) = True"

text \<open>\<^verbatim>\<open>a || b\<close>\<close>

definition js_or :: "'n js_runtime \<Rightarrow> 'n jsval \<Rightarrow> 'n jsval \<Rightarrow> 'n jsval" where
  "js_or rt a b = (if truthy rt a then a else b)"

text \<open>Array.prototype.join with the default separator.\<close>

fun join_comma :: "string list \<Rightarrow> string" where
  "join_comma [] = []"
| "join_comma [x] = x"
| "join_comma (x # y # ys) = x @ '','' @ join_comma (y # ys)"

text \<open>ToString; an array prints its elements joined by commas, null and undefined
  elements printing as nothing, and a plain object prints as \<^verbatim>\<open>[object Object]\<close>.\<close>

fun to_string :: "'n js_runtime \<Rightarrow> 'n jsval \<Rightarrow> string" where
  "to_string rt JUndefined = ''undefined''"
| "to_string rt JNull = ''null''"
| "to_string rt (JBool b) = (if b then ''true'' else ''false'')"
| "to_string rt (JNum n) = Number_toString rt n"
| "to_string rt (JStr s) = s"
| "to_string rt (JArr xs) =
     join_comma (map (\<lambda>x. case x of JUndefined \<Rightarrow> [] | JNull \<Rightarrow> [] | _ \<Rightarrow> to_string rt x) xs)"
| "to_string rt (JObj fs) = ''[object Object]''"

definition to_primitive :: "'n js_runtime \<Rightarrow> 'n jsval \<Rightarrow> 'n jsval" where
  "to_primitive rt v =
     (case v of JArr xs \<Rightarrow> JStr (to_string rt v) | JObj fs \<Rightarrow> JStr (to_string rt v) | _ \<Rightarrow> v)"

fun is_string :: "'n jsval \<Rightarrow> bool" where
  "is_string (JStr s) = True"
| "is_string _ = False"

text \<open>ToNumber on the primitives that reach the numeric branch of \<^verbatim>\<open>+\<close>.\<close>

fun to_number :: "'n js_runtime \<Rightarrow> 'n jsval \<Rightarrow> 'n" where
  "to_number rt (JNum n) = n"
| "to_number rt (JBool b) = (if b then Number_one rt else Number_zero rt)"
| "to_number rt JNull = Number_zero rt"
| "to_number rt _ = Number_NaN rt"

text \<open>\<^verbatim>\<open>a + b\<close>: string concatenation as soon as one primitive operand is a string.\<close>

definition js_add :: "'n js_runtime \<Rightarrow> 'n jsval \<Rightarrow> 'n jsval \<Rightarrow> 'n jsval" where
  "js_add rt a b =
     (let pa = to_primitive rt a; pb = to_primitive rt b in
      if is_string pa \<or> is_string pb then JStr (to_string rt pa @ to_string rt pb)
      else JNum (Number_add rt (to_number rt pa) (to_number rt pb)))"

text \<open>An object built by JSON.parse keeps the last value given for a repeated key.\<close>

definition own_property :: "(string \<times> 'n jsval) list \<Rightarrow> string \<Rightarrow> 'n jsval" where
  "own_property fs k = (case map_of (rev fs) k of None \<Rightarrow> JUndefined | Some v \<Rightarrow> v)"

text \<open>
  Property read \<^verbatim>\<open>v[k]\<close>, for the keys the module reads: \<^verbatim>\<open>choices\<close>, \<^verbatim>\<open>0\<close>,
  \<^verbatim>\<open>delta\<close>, \<^verbatim>\<open>content\<close>, \<^verbatim>\<open>reasoning_content\<close>, \<^verbatim>\<open>role\<close>.  Reading a property of
  null or undefined throws TypeError; a string has its first code unit at index 0; none
  of the other names exists on a prototype.
\<close>

fun js_get :: "'n jsval \<Rightarrow> string \<Rightarrow> js_error + 'n jsval" where
  "js_get JUndefined k = Inl TypeError"
| "js_get JNull k = Inl TypeError"
| "js_get (JObj fs) k = Inr (own_property fs k)"
| "js_get (JArr xs) k =
     Inr (if k = ''0'' then (case xs of [] \<Rightarrow> JUndefined | x # _ \<Rightarrow> x) else JUndefined)"
| "js_get (JStr s) k =
     Inr (if k = ''0'' then (case s of [] \<Rightarrow> JUndefined | c # _ \<Rightarrow> JStr [c]) else JUndefined)"
| "js_get (JBool b) k = Inr JUndefined"
| "js_get (JNum n) k = Inr JUndefined"

section \<open>String operations\<close>

text \<open>The white space and line terminators removed by String.prototype.trim, among the
  code units below 256: TAB, LF, VT, FF, CR, SPACE and NO-BREAK SPACE.\<close>

definition is_js_space :: "char \<Rightarrow> bool" where
  "is_js_space c = (c \<in> set [CHR 0x09, CHR 0x0A, CHR 0x0B, CHR 0x0C, CHR 0x0D, CHR 0x20, CHR 0xA0])"

definition trim :: "string \<Rightarrow> string" where
  "trim s = rev (dropWhile is_js_space (rev (dropWhile is_js_space s)))"

text \<open>\<^verbatim>\<open>s.startsWith(p)\<close> and \<^verbatim>\<open>s.slice(n)\<close> for \<open>n\<close> not negative.\<close>

definition startsWith :: "string \<Rightarrow> string \<Rightarrow> bool" where
  "startsWith s p = (take (length p) s = p)"

definition slice :: "string \<Rightarrow> nat \<Rightarrow> string" where
  "slice s n = drop n s"

text \<open>\<^verbatim>\<open>s.split('\n')\<close>: never empty; the pieces joined by LF give \<open>s\<close> back.\<close>

fun split_nl :: "string \<Rightarrow> string list" where
  "split_nl [] = [[]]"
| "split_nl (c # cs) =
     (let rest = split_nl cs in
      if c = CHR 0x0A then [] # rest else (c # hd rest) # tl rest)"

text \<open>\<^verbatim>\<open>s.replace(/^[\r\n]+/, '')\<close>\<close>

definition strip_leading_newlines :: "string \<Rightarrow> string" where
  "strip_leading_newlines s = dropWhile (\<lambda>c. c = CHR 0x0D \<or> c = CHR 0x0A) s"

text \<open>The decimal digits of a number, as template literals print it.\<close>

definition digit_char :: "nat \<Rightarrow> char" where
  "digit_char d = char_of (48 + d)"

fun show_nat :: "nat \<Rightarrow> string" where
  "show_nat n = (if n < 10 then [digit_char n] else show_nat (n div 10) @ [digit_char (n mod 10)])"

declare show_nat.simps [simp del]

section \<open>StreamProcessor\<close>

definition DATA_PREFIX :: string where
  "DATA_PREFIX = ''data: ''"

definition DONE_MESSAGE :: string where
  "DONE_MESSAGE = ''[DONE]''"

text \<open>extractContent(delta)\<close>

definition extractContent :: "'n js_runtime \<Rightarrow> 'n jsval \<Rightarrow> js_error + 'n jsval" where
  "extractContent rt delta =
     (if \<not> truthy rt delta then Inr (JStr [])
      else case js_get delta ''content'' of
             Inl e \<Rightarrow> Inl e
           | Inr c \<Rightarrow>
               (let content = js_or rt c (JStr []) in
                case js_get delta ''reasoning_content'' of
                  Inl e \<Rightarrow> Inl e
                | Inr r \<Rightarrow>
                    (let reasoning = js_or rt r (JStr []) in
                     Inr (js_add rt reasoning content))))"

text \<open>\<^verbatim>\<open>choice?.delta\<close>\<close>

definition optional_delta :: "'n jsval \<Rightarrow> js_error + 'n jsval" where
  "optional_delta choice =
     (case choice of JUndefined \<Rightarrow> Inr JUndefined | JNull \<Rightarrow> Inr JUndefined
      | _ \<Rightarrow> js_get choice ''delta'')"

text \<open>The body of the \<^verbatim>\<open>try\<close> block of parseSSELine.\<close>

definition parse_data_line :: "'n js_runtime \<Rightarrow> string \<Rightarrow> js_error + 'n jsval" where
  "parse_data_line rt trimmedLine =
     (let dataStr = slice trimmedLine (length DATA_PREFIX) in
      case JSON_parse rt dataStr of
        None \<Rightarrow> Inl SyntaxError
      | Some data \<Rightarrow>
          (case js_get data ''choices'' of
             Inl e \<Rightarrow> Inl e
           | Inr choices \<Rightarrow>
               (case js_get choices ''0'' of
                  Inl e \<Rightarrow> Inl e
                | Inr choice \<Rightarrow>
                    (case optional_delta choice of
                       Inl e \<Rightarrow> Inl e
                     | Inr delta \<Rightarrow> extractContent rt delta))))"

text \<open>parseSSELine(line); the \<^verbatim>\<open>catch\<close> clause logs the exception and returns the empty
  string.\<close>

definition parseSSELine :: "'n js_runtime \<Rightarrow> string \<Rightarrow> 'n jsval" where
  "parseSSELine rt line =
     (let trimmedLine = trim line in
      if trimmedLine = [] \<or> trimmedLine = DATA_PREFIX @ DONE_MESSAGE then JStr []
      else if startsWith trimmedLine DATA_PREFIX then
        (case parse_data_line rt trimmedLine of Inl e \<Rightarrow> JStr [] | Inr v \<Rightarrow> v)
      else JStr [])"

text \<open>The local variables of processStream that live across reads.\<close>

record decoder_state =
  fullResponse :: string
  buffer :: string
  isFirstContent :: bool

definition initial_decoder :: decoder_state where
  "initial_decoder = \<lparr>fullResponse = [], buffer = [], isFirstContent = True\<rparr>"

text \<open>The \<^verbatim>\<open>for (const line of lines)\<close> loop: \<^verbatim>\<open>if (content) chunkContent += content\<close>.\<close>

definition append_content :: "'n js_runtime \<Rightarrow> string \<Rightarrow> string \<Rightarrow> string" where
  "append_content rt chunkContent line =
     (let content = parseSSELine rt line in
      if truthy rt content then chunkContent @ to_string rt content else chunkContent)"

definition collect_lines :: "'n js_runtime \<Rightarrow> string list \<Rightarrow> string" where
  "collect_lines rt lines = foldl (append_content rt) [] lines"

text \<open>
  One iteration of the \<^verbatim>\<open>while (true)\<close> loop after a successful read of \<open>chunk\<close> (the
  text the TextDecoder returns for the bytes read).  The second component is the argument
  of the onChunk call, if one is made.
\<close>

definition process_chunk ::
  "'n js_runtime \<Rightarrow> decoder_state \<Rightarrow> string \<Rightarrow> decoder_state \<times> string option" where
  "process_chunk rt st chunk =
     (let buf = buffer st @ chunk;
          lines = split_nl buf;
          st1 = st\<lparr>buffer := last lines\<rparr>;
          chunkContent = collect_lines rt (butlast lines)
      in if chunkContent \<noteq> [] then
           (let chunkContent' =
                  (if isFirstContent st1 then strip_leading_newlines chunkContent
                   else chunkContent);
                st2 = st1\<lparr>isFirstContent := False,
                          fullResponse := fullResponse st1 @ chunkContent'\<rparr>
            in (st2, Some (fullResponse st2)))
         else (st1, None))"

text \<open>
  The reader: the chunks it delivers, in order, and how it ends: \<^verbatim>\<open>done\<close>, or a read
  that rejects with the given message.
\<close>

datatype stream_end = StreamDone | StreamFails string

record stream_reader =
  chunks :: "string list"
  finish :: stream_end

text \<open>The loop of processStream: the onChunk arguments in call order, and either the
  argument of onComplete or the exception rethrown by the \<^verbatim>\<open>catch\<close> clause.\<close>

fun read_loop ::
  "'n js_runtime \<Rightarrow> decoder_state \<Rightarrow> string list \<Rightarrow> stream_end \<Rightarrow>
     string list \<times> (js_error + string)" where
  "read_loop rt st [] StreamDone = ([], Inr (fullResponse st))"
| "read_loop rt st [] (StreamFails m) = ([], Inl (Error m))"
| "read_loop rt st (c # cs) fin =
     (let (st', call) = process_chunk rt st c;
          (calls, out) = read_loop rt st' cs fin
      in ((case call of None \<Rightarrow> [] | Some full \<Rightarrow> [full]) @ calls, out))"

definition processStream ::
  "'n js_runtime \<Rightarrow> stream_reader \<Rightarrow> string list \<times> (js_error + string)" where
  "processStream rt reader = read_loop rt initial_decoder (chunks reader) (finish reader)"

section \<open>StorageManager\<close>

text \<open>
  localStorage: the stored items, and whether its methods raise.  With \<open>QuotaExceeded\<close>
  every setItem raises; with \<open>AccessDenied\<close> every method does.  \<open>console\<close> records the
  first argument of each console.error call made by StorageManager.
\<close>

datatype storage_fault = NoFault | QuotaExceeded | AccessDenied

record browser =
  items :: "string \<rightharpoonup> string"
  fault :: storage_fault
  console :: "string list"

definition API_KEY :: string where
  "API_KEY = ''arkApiKey''"

definition CHAT_HISTORY :: string where
  "CHAT_HISTORY = ''chatHistory''"

definition getItem :: "browser \<Rightarrow> string \<Rightarrow> js_error + string option" where
  "getItem b k = (if fault b = AccessDenied then Inl DOMException else Inr (items b k))"

definition setItem :: "browser \<Rightarrow> string \<Rightarrow> string \<Rightarrow> js_error + browser" where
  "setItem b k v =
     (if fault b \<noteq> NoFault then Inl DOMException else Inr (b\<lparr>items := (items b)(k \<mapsto> v)\<rparr>))"

definition removeItem :: "browser \<Rightarrow> string \<Rightarrow> js_error + browser" where
  "removeItem b k =
     (if fault b = AccessDenied then Inl DOMException else Inr (b\<lparr>items := (items b)(k := None)\<rparr>))"

definition console_error :: "browser \<Rightarrow> string \<Rightarrow> browser" where
  "console_error b msg = b\<lparr>console := console b @ [msg]\<rparr>"

text \<open>getApiKey: the stored key, \<open>None\<close> for null.\<close>

definition getApiKey :: "browser \<Rightarrow> string option \<times> browser" where
  "getApiKey b =
     (case getItem b API_KEY of
        Inr v \<Rightarrow> (v, b)
      | Inl e \<Rightarrow> (None, console_error b ''Failed to get API key:''))"

text \<open>saveApiKey: the exception it raises, if any, and the browser afterwards.\<close>

definition saveApiKey :: "browser \<Rightarrow> string \<Rightarrow> js_error option \<times> browser" where
  "saveApiKey b key =
     (case setItem b API_KEY key of
        Inr b' \<Rightarrow> (None, b')
      | Inl e \<Rightarrow> (Some SaveKeyError, console_error b ''Failed to save API key:''))"

definition removeApiKey :: "browser \<Rightarrow> browser" where
  "removeApiKey b =
     (case removeItem b API_KEY of
        Inr b' \<Rightarrow> b'
      | Inl e \<Rightarrow> console_error b ''Failed to remove API key:'')"

definition clearHistory :: "browser \<Rightarrow> browser" where
  "clearHistory b =
     (case removeItem b CHAT_HISTORY of
        Inr b' \<Rightarrow> b'
      | Inl e \<Rightarrow> console_error b ''Failed to clear history:'')"

text \<open>The \<^verbatim>\<open>try\<close> block of getHistory: \<^verbatim>\<open>history ? JSON.parse(history) : []\<close>.\<close>

definition getHistory_try :: "'n js_runtime \<Rightarrow> browser \<Rightarrow> js_error + 'n jsval" where
  "getHistory_try rt b =
     (case getItem b CHAT_HISTORY of
        Inl e \<Rightarrow> Inl e
      | Inr history \<Rightarrow>
          (case history of
             None \<Rightarrow> Inr (JArr [])
           | Some h \<Rightarrow>
               if h = [] then Inr (JArr [])
               else (case JSON_parse rt h of None \<Rightarrow> Inl SyntaxError | Some v \<Rightarrow> Inr v)))"

definition getHistory :: "'n js_runtime \<Rightarrow> browser \<Rightarrow> 'n jsval \<times> browser" where
  "getHistory rt b =
     (case getHistory_try rt b of
        Inr v \<Rightarrow> (v, b)
      | Inl e \<Rightarrow> (JArr [], clearHistory (console_error b ''Failed to load history:'')))"

text \<open>The \<^verbatim>\<open>try\<close> block of saveHistory, and saveHistory.\<close>

definition saveHistory_try :: "'n js_runtime \<Rightarrow> browser \<Rightarrow> 'n jsval \<Rightarrow> js_error + browser" where
  "saveHistory_try rt b history = setItem b CHAT_HISTORY (JSON_stringify rt history)"

definition saveHistory :: "'n js_runtime \<Rightarrow> browser \<Rightarrow> 'n jsval \<Rightarrow> browser" where
  "saveHistory rt b history =
     (case saveHistory_try rt b history of
        Inr b' \<Rightarrow> b'
      | Inl e \<Rightarrow> console_error b ''Failed to save history:'')"

section \<open>ChatAPIClient and ChatController\<close>

text \<open>
  The calls made on the renderer and the UI manager, in order.  Element identifiers and
  scrolling are left out; the two error texts and the toasts are fixed sentences of the
  source, named here by constructors.
\<close>

datatype error_text = AuthFailedText | GenericErrorText string

datatype toast = KeySaved | SaveFailed | InvalidKey | KeyRemoved | HistoryCleared

datatype 'n ui_call =
    RenderUserMessage "'n jsval"
  | RenderAIMessage "'n jsval"
  | RenderLoading
  | RemoveLoading
  | UpdateMessage string
  | RenderError error_text
  | ClearAll
  | ShowAuthView
  | ShowChatView
  | ShowToast toast

text \<open>A call of \<^verbatim>\<open>fetch\<close>: the bearer token and the \<^verbatim>\<open>messages\<close> of the body.\<close>

record 'n request =
  bearer :: string
  messages :: "'n jsval list"

text \<open>
  An invocation of the asynchronous handleSendMessage that is suspended at an
  \<^verbatim>\<open>await\<close>: waiting for \<^verbatim>\<open>fetch\<close>, or inside processStream waiting for a read.
\<close>

datatype task = AwaitingResponse | Streaming decoder_state | Settled

record 'n controller =
  chatHistory :: "'n jsval list"
  isComposing :: bool
  chatInput :: string
  sendDisabled :: bool
  apiKeyInput :: string
  ui :: "'n ui_call list"
  browser :: browser
  requests :: "'n request list"
  tasks :: "task list"

definition message :: "string \<Rightarrow> string \<Rightarrow> 'n jsval" where
  "message role content = JObj [(''role'', JStr role), (''content'', JStr content)]"

definition show_ui :: "'n controller \<Rightarrow> 'n ui_call list \<Rightarrow> 'n controller" where
  "show_ui st calls = st\<lparr>ui := ui st @ calls\<rparr>"

definition checkApiKey :: "'n controller \<Rightarrow> 'n controller" where
  "checkApiKey st =
     (let (key, b) = getApiKey (browser st); st1 = st\<lparr>browser := b\<rparr> in
      case key of
        None \<Rightarrow> show_ui st1 [ShowAuthView]
      | Some k \<Rightarrow> if k \<noteq> [] then show_ui st1 [ShowChatView] else show_ui st1 [ShowAuthView])"

text \<open>The \<^verbatim>\<open>catch\<close> clause of handleSendMessage, given \<^verbatim>\<open>error.message\<close>.\<close>

definition handleSendMessage_catch :: "'n controller \<Rightarrow> string \<Rightarrow> 'n controller" where
  "handleSendMessage_catch st msg =
     (let errorMessage = (if msg = ''401'' then AuthFailedText else GenericErrorText msg);
          st1 = show_ui st [RemoveLoading, RenderError errorMessage]
      in if msg = ''401'' then checkApiKey (st1\<lparr>browser := removeApiKey (browser st1)\<rparr>)
         else st1)"

text \<open>
  handleSendMessage from its call to its first \<^verbatim>\<open>await\<close>: the \<^verbatim>\<open>fetch\<close> call made by
  sendMessage.  \<open>prompt\<close> is CHAT_CONFIG.API.SYSTEM_PROMPT.
\<close>

definition handleSendMessage :: "'n js_runtime \<Rightarrow> string \<Rightarrow> 'n controller \<Rightarrow> 'n controller" where
  "handleSendMessage rt prompt st =
     (let content = trim (chatInput st) in
      if content = [] then st
      else
        (let st1 = show_ui st [RenderUserMessage (JStr content)];
             st2 = st1\<lparr>chatHistory := chatHistory st1 @ [message ''user'' content]\<rparr>;
             st3 = st2\<lparr>browser := saveHistory rt (browser st2) (JArr (chatHistory st2))\<rparr>;
             st4 = st3\<lparr>chatInput := [], sendDisabled := True\<rparr>;
             st5 = show_ui st4 [RenderLoading];
             (apiKey, b) = getApiKey (browser st5);
             st6 = st5\<lparr>browser := b\<rparr>
         in case apiKey of
              None \<Rightarrow> handleSendMessage_catch st6 ''No API key found''
            | Some key \<Rightarrow>
                if key = [] then handleSendMessage_catch st6 ''No API key found''
                else st6\<lparr>requests := requests st6 @
                            [\<lparr>bearer = key,
                              messages = message ''system'' prompt # chatHistory st6\<rparr>],
                          tasks := tasks st6 @ [AwaitingResponse]\<rparr>))"

text \<open>How the \<^verbatim>\<open>fetch\<close> promise settles: a response with its status, or a rejection.\<close>

datatype fetch_result = Response nat | Rejected string

definition response_ok :: "nat \<Rightarrow> bool" where
  "response_ok status = (200 \<le> status \<and> status \<le> 299)"

text \<open>The rest of sendMessage once \<^verbatim>\<open>fetch\<close> has settled: the message of the exception
  it raises, or nothing when it returns the reader of the body.\<close>

definition sendMessage_settled :: "fetch_result \<Rightarrow> string option" where
  "sendMessage_settled r =
     (case r of
        Rejected msg \<Rightarrow> Some msg
      | Response status \<Rightarrow>
          if \<not> response_ok status then
            (if status = 401 then Some ''401'' else Some (''API Error: '' @ show_nat status))
          else None)"

text \<open>What a read of the body delivers.\<close>

datatype read_result = Chunk string | Done | ReadFails string

text \<open>
  What can happen to the page: user input, the handlers it triggers, the settling of the
  promise on which the suspended invocation \<open>i\<close> (its position in \<open>tasks\<close>) waits, and
  a change in the condition of the storage.
\<close>

datatype event =
    Input string
  | KeyInput string
  | CompositionStart
  | CompositionEnd
  | PressEnter bool
  | ClickSend
  | ClickSaveKey
  | ConfirmClearKey
  | ConfirmClearHistory
  | OpenModal
  | FetchSettles nat fetch_result
  | Read nat read_result
  | StorageFault storage_fault

definition handleInputChange :: "'n controller \<Rightarrow> 'n controller" where
  "handleInputChange st = st\<lparr>sendDisabled := (trim (chatInput st) = [])\<rparr>"

definition handleSaveApiKey :: "'n controller \<Rightarrow> 'n controller" where
  "handleSaveApiKey st =
     (let key = trim (apiKeyInput st) in
      if key \<noteq> [] then
        (case saveApiKey (browser st) key of
           (None, b) \<Rightarrow>
             show_ui ((checkApiKey (st\<lparr>browser := b\<rparr>))\<lparr>apiKeyInput := []\<rparr>) [ShowToast KeySaved]
         | (Some e, b) \<Rightarrow> show_ui (st\<lparr>browser := b\<rparr>) [ShowToast SaveFailed])
      else show_ui st [ShowToast InvalidKey])"

text \<open>The callbacks that handleClearApiKey and handleClearHistory pass to the
  confirmation dialog.\<close>

definition clearApiKey_confirmed :: "'n controller \<Rightarrow> 'n controller" where
  "clearApiKey_confirmed st =
     show_ui (checkApiKey (st\<lparr>browser := removeApiKey (browser st)\<rparr>)) [ShowToast KeyRemoved]"

definition clearHistory_confirmed :: "'n controller \<Rightarrow> 'n controller" where
  "clearHistory_confirmed st =
     show_ui (st\<lparr>chatHistory := [], browser := clearHistory (browser st)\<rparr>)
       [ClearAll, ShowToast HistoryCleared]"

text \<open>
  loadHistory, called once by the constructor: the value read by getHistory becomes
  \<^verbatim>\<open>this.chatHistory\<close> and its elements are rendered by \<^verbatim>\<open>forEach\<close>, which raises
  TypeError when the value is not an array, as does reading \<^verbatim>\<open>msg.role\<close> of a null
  element.
\<close>

fun is_role :: "string \<Rightarrow> 'n jsval \<Rightarrow> bool" where
  "is_role r (JStr s) = (s = r)"
| "is_role r _ = False"

fun render_history :: "'n jsval list \<Rightarrow> js_error + 'n ui_call list" where
  "render_history [] = Inr []"
| "render_history (msg # msgs) =
     (case js_get msg ''role'' of
        Inl e \<Rightarrow> Inl e
      | Inr role \<Rightarrow>
          (case js_get msg ''content'' of
             Inl e \<Rightarrow> Inl e
           | Inr content \<Rightarrow>
               (case render_history msgs of
                  Inl e \<Rightarrow> Inl e
                | Inr calls \<Rightarrow>
                    Inr ((if is_role ''user'' role then [RenderUserMessage content]
                          else if is_role ''assistant'' role then
                            [RenderAIMessage (case content of JUndefined \<Rightarrow> JStr [] | _ \<Rightarrow> content)]
                          else []) @ calls))))"

definition loadHistory :: "'n js_runtime \<Rightarrow> 'n controller \<Rightarrow> js_error + 'n controller" where
  "loadHistory rt st =
     (let (history, b) = getHistory rt (browser st) in
      case history of
        JArr msgs \<Rightarrow>
          (case render_history msgs of
             Inl e \<Rightarrow> Inl e
           | Inr calls \<Rightarrow> Inr (show_ui (st\<lparr>chatHistory := msgs, browser := b\<rparr>) calls))
      | _ \<Rightarrow> Inl TypeError)"

text \<open>The controller as the constructor leaves it before loadHistory, on a page whose
  inputs are empty.\<close>

definition new_controller :: "browser \<Rightarrow> 'n controller" where
  "new_controller b =
     \<lparr>chatHistory = [], isComposing = False, chatInput = [], sendDisabled = True,
      apiKeyInput = [], ui = [], browser = b, requests = [], tasks = []\<rparr>"

text \<open>handleSendMessage resumed when \<^verbatim>\<open>fetch\<close> settles for the suspended invocation
  \<open>i\<close>.\<close>

definition fetch_settles :: "'n controller \<Rightarrow> nat \<Rightarrow> fetch_result \<Rightarrow> 'n controller" where
  "fetch_settles st i r =
     (if i < length (tasks st) \<and> tasks st ! i = AwaitingResponse then
        (case sendMessage_settled r of
           Some msg \<Rightarrow> handleSendMessage_catch (st\<lparr>tasks := (tasks st)[i := Settled]\<rparr>) msg
         | None \<Rightarrow>
             show_ui (st\<lparr>tasks := (tasks st)[i := Streaming initial_decoder]\<rparr>)
               [RemoveLoading, RenderAIMessage (JStr [])])
      else st)"

text \<open>processStream resumed when a read settles for the suspended invocation \<open>i\<close>; on
  \<^verbatim>\<open>done\<close> the onComplete callback of handleSendMessage runs.\<close>

definition read_settles ::
  "'n js_runtime \<Rightarrow> 'n controller \<Rightarrow> nat \<Rightarrow> read_result \<Rightarrow> 'n controller" where
  "read_settles rt st i r =
     (if i < length (tasks st) then
        (case tasks st ! i of
           Streaming d \<Rightarrow>
             (case r of
                Chunk c \<Rightarrow>
                  (let (d', call) = process_chunk rt d c;
                       st1 = st\<lparr>tasks := (tasks st)[i := Streaming d']\<rparr>
                   in case call of
                        None \<Rightarrow> st1
                      | Some full \<Rightarrow> show_ui st1 [UpdateMessage full])
              | Done \<Rightarrow>
                  (let st1 = st\<lparr>tasks := (tasks st)[i := Settled]\<rparr>;
                       st2 = st1\<lparr>chatHistory :=
                                chatHistory st1 @ [message ''assistant'' (fullResponse d)]\<rparr>
                   in st2\<lparr>browser := saveHistory rt (browser st2) (JArr (chatHistory st2))\<rparr>)
              | ReadFails msg \<Rightarrow>
                  handleSendMessage_catch (st\<lparr>tasks := (tasks st)[i := Settled]\<rparr>) msg)
         | _ \<Rightarrow> st)
      else st)"

fun step :: "'n js_runtime \<Rightarrow> string \<Rightarrow> 'n controller \<Rightarrow> event \<Rightarrow> 'n controller" where
  "step rt prompt st (Input v) = handleInputChange (st\<lparr>chatInput := v\<rparr>)"
| "step rt prompt st (KeyInput v) = st\<lparr>apiKeyInput := v\<rparr>"
| "step rt prompt st CompositionStart = st\<lparr>isComposing := True\<rparr>"
| "step rt prompt st CompositionEnd = st\<lparr>isComposing := False\<rparr>"
| "step rt prompt st (PressEnter shiftKey) =
     (if \<not> shiftKey \<and> \<not> isComposing st then handleSendMessage rt prompt st else st)"
| "step rt prompt st ClickSend =
     (if sendDisabled st then st else handleSendMessage rt prompt st)"
| "step rt prompt st ClickSaveKey = handleSaveApiKey st"
| "step rt prompt st ConfirmClearKey = clearApiKey_confirmed st"
| "step rt prompt st ConfirmClearHistory = clearHistory_confirmed st"
| "step rt prompt st OpenModal = checkApiKey st"
| "step rt prompt st (FetchSettles i r) = fetch_settles st i r"
| "step rt prompt st (Read i r) = read_settles rt st i r"
| "step rt prompt st (StorageFault f) = st\<lparr>browser := (browser st)\<lparr>fault := f\<rparr>\<rparr>"

text \<open>An invocation of handleSendMessage is in flight: sending or streaming.\<close>

fun settled :: "task \<Rightarrow> bool" where
  "settled Settled = True"
| "settled _ = False"

definition in_flight :: "'n controller \<Rightarrow> bool" where
  "in_flight st = (\<exists>t \<in> set (tasks st). \<not> settled t)"

text \<open>A record of the history as handleSendMessage builds them: role user or assistant,
  and a text.\<close>

fun is_chat_record :: "'n jsval \<Rightarrow> bool" where
  "is_chat_record (JObj [(k1, JStr r), (k2, JStr c)]) =
     (k1 = ''role'' \<and> k2 = ''content'' \<and> (r = ''user'' \<or> r = ''assistant''))"
| "is_chat_record _ = False"

section \<open>A reference runtime\<close>

text \<open>
  The properties of the module are stated for an arbitrary runtime.  To run the module on
  concrete streams, this section provides one: a JSON reader and writer following the
  JSON grammar, with numbers kept as exact decimals (mantissa and power of ten) instead of
  IEEE doubles.  A \<^verbatim>\<open>\u\<close> escape above 00FF denotes a code unit outside the modelled
  alphabet and is not read.  Members of an object are kept as written.
\<close>

datatype decimal = Decimal int int | NaN

fun decimal_add :: "decimal \<Rightarrow> decimal \<Rightarrow> decimal" where
  "decimal_add (Decimal m1 e1) (Decimal m2 e2) =
     (let e = min e1 e2 in Decimal (m1 * 10 ^ nat (e1 - e) + m2 * 10 ^ nat (e2 - e)) e)"
| "decimal_add _ _ = NaN"

fun decimal_truthy :: "decimal \<Rightarrow> bool" where
  "decimal_truthy (Decimal m e) = (m \<noteq> 0)"
| "decimal_truthy NaN = False"

fun decimal_toString :: "decimal \<Rightarrow> string" where
  "decimal_toString NaN = ''NaN''"
| "decimal_toString (Decimal m e) =
     (let sign = (if m < 0 then ''-'' else []); a = nat \<bar>m\<bar> in
      if 0 \<le> e then sign @ show_nat (a * 10 ^ nat e)
      else
        (let k = nat (- e);
             ip = a div 10 ^ k;
             fp = show_nat (a mod 10 ^ k);
             frac = rev (dropWhile (\<lambda>c. c = CHR ''0'')
                      (rev (replicate (k - length fp) (CHR ''0'') @ fp)))
         in sign @ show_nat ip @ (if frac = [] then [] else ''.'' @ frac)))"

subsection \<open>Reading JSON\<close>

definition is_json_space :: "char \<Rightarrow> bool" where
  "is_json_space c = (c \<in> set [CHR 0x20, CHR 0x09, CHR 0x0A, CHR 0x0D])"

definition skip_ws :: "string \<Rightarrow> string" where
  "skip_ws s = dropWhile is_json_space s"

definition is_digit :: "char \<Rightarrow> bool" where
  "is_digit c = (c \<in> set ''0123456789'')"

definition digit_value :: "char \<Rightarrow> nat" where
  "digit_value c = of_char c - 48"

definition digits_value :: "string \<Rightarrow> nat" where
  "digits_value ds = foldl (\<lambda>n c. 10 * n + digit_value c) 0 ds"

definition hex_value :: "char \<Rightarrow> nat option" where
  "hex_value c =
     (if is_digit c then Some (digit_value c)
      else if c \<in> set ''abcdef'' then Some (of_char c - 87)
      else if c \<in> set ''ABCDEF'' then Some (of_char c - 55)
      else None)"

definition hex4 :: "char \<Rightarrow> char \<Rightarrow> char \<Rightarrow> char \<Rightarrow> nat option" where
  "hex4 a b c d =
     (case (hex_value a, hex_value b, hex_value c, hex_value d) of
        (Some x, Some y, Some z, Some w) \<Rightarrow> Some (((x * 16 + y) * 16 + z) * 16 + w)
      | _ \<Rightarrow> None)"

definition unescape :: "char \<Rightarrow> char option" where
  "unescape e =
     (if e = CHR 0x22 then Some (CHR 0x22)
      else if e = CHR 0x5C then Some (CHR 0x5C)
      else if e = CHR ''/'' then Some (CHR ''/'')
      else if e = CHR ''b'' then Some (CHR 0x08)
      else if e = CHR ''f'' then Some (CHR 0x0C)
      else if e = CHR ''n'' then Some (CHR 0x0A)
      else if e = CHR ''r'' then Some (CHR 0x0D)
      else if e = CHR ''t'' then Some (CHR 0x09)
      else None)"

definition cons_fst :: "'a \<Rightarrow> ('a list \<times> 'b) option \<Rightarrow> ('a list \<times> 'b) option" where
  "cons_fst x r = map_option (\<lambda>(xs, rest). (x # xs, rest)) r"

text \<open>The characters of a string literal after its opening quote, and the rest of the
  input after its closing quote.\<close>

fun parse_string_chars :: "string \<Rightarrow> (string \<times> string) option" where
  "parse_string_chars [] = None"
| "parse_string_chars (c # cs) =
     (if c = CHR 0x22 then Some ([], cs)
      else if c = CHR 0x5C then
        (case cs of
           [] \<Rightarrow> None
         | e # r \<Rightarrow>
             if e = CHR ''u'' then
               (case r of
                  h1 # h2 # h3 # h4 # r' \<Rightarrow>
                    (case hex4 h1 h2 h3 h4 of
                       None \<Rightarrow> None
                     | Some n \<Rightarrow>
                         if n < 256 then cons_fst (char_of n) (parse_string_chars r')
                         else None)
                | _ \<Rightarrow> None)
             else
               (case unescape e of
                  None \<Rightarrow> None
                | Some ch \<Rightarrow> cons_fst ch (parse_string_chars r)))
      else if of_char c < (32::nat) then None
      else cons_fst c (parse_string_chars cs))"

text \<open>A number literal: optional minus, integer part without leading zero, optional
  fraction, optional exponent.\<close>

definition parse_number :: "string \<Rightarrow> (decimal \<times> string) option" where
  "parse_number s =
     (let neg = (s \<noteq> [] \<and> hd s = CHR ''-'');
          s1 = (if neg then tl s else s);
          ip = takeWhile is_digit s1;
          s2 = dropWhile is_digit s1;
          has_frac = (s2 \<noteq> [] \<and> hd s2 = CHR ''.'');
          fp = (if has_frac then takeWhile is_digit (tl s2) else []);
          s3 = (if has_frac then dropWhile is_digit (tl s2) else s2);
          has_exp = (s3 \<noteq> [] \<and> (hd s3 = CHR ''e'' \<or> hd s3 = CHR ''E''));
          s4 = (if has_exp then tl s3 else s3);
          exp_neg = (has_exp \<and> s4 \<noteq> [] \<and> hd s4 = CHR ''-'');
          s5 = (if has_exp \<and> s4 \<noteq> [] \<and> (hd s4 = CHR ''-'' \<or> hd s4 = CHR ''+'') then tl s4 else s4);
          ep = (if has_exp then takeWhile is_digit s5 else []);
          s6 = (if has_exp then dropWhile is_digit s5 else s3)
      in if ip = [] \<or> (1 < length ip \<and> hd ip = CHR ''0'') \<or> (has_frac \<and> fp = [])
            \<or> (has_exp \<and> ep = []) then None
         else
           (let m = int (digits_value (ip @ fp));
                e = (if exp_neg then - int (digits_value ep) else int (digits_value ep))
                    - int (length fp)
            in Some (Decimal (if neg then - m else m) e, s6)))"

text \<open>Values, array elements (after the opening bracket, the array not being empty) and
  object members (likewise).  The first argument bounds the depth of the recursion.\<close>

fun parse_value :: "nat \<Rightarrow> string \<Rightarrow> (decimal jsval \<times> string) option"
  and parse_elements :: "nat \<Rightarrow> string \<Rightarrow> (decimal jsval list \<times> string) option"
  and parse_members :: "nat \<Rightarrow> string \<Rightarrow> ((string \<times> decimal jsval) list \<times> string) option"
where
  "parse_value 0 s = None"
| "parse_value (Suc n) s =
     (case skip_ws s of
        [] \<Rightarrow> None
      | c # r \<Rightarrow>
          if c = CHR ''{'' then
            (if skip_ws r \<noteq> [] \<and> hd (skip_ws r) = CHR ''}'' then Some (JObj [], tl (skip_ws r))
             else map_option (\<lambda>(ms, rest). (JObj ms, rest)) (parse_members n r))
          else if c = CHR ''['' then
            (if skip_ws r \<noteq> [] \<and> hd (skip_ws r) = CHR '']'' then Some (JArr [], tl (skip_ws r))
             else map_option (\<lambda>(vs, rest). (JArr vs, rest)) (parse_elements n r))
          else if c = CHR 0x22 then
            map_option (\<lambda>(str, rest). (JStr str, rest)) (parse_string_chars r)
          else if take 4 (c # r) = ''true'' then Some (JBool True, drop 4 (c # r))
          else if take 5 (c # r) = ''false'' then Some (JBool False, drop 5 (c # r))
          else if take 4 (c # r) = ''null'' then Some (JNull, drop 4 (c # r))
          else map_option (\<lambda>(d, rest). (JNum d, rest)) (parse_number (c # r)))"
| "parse_elements 0 s = None"
| "parse_elements (Suc n) s =
     (case parse_value n s of
        None \<Rightarrow> None
      | Some (v, r) \<Rightarrow>
          (case skip_ws r of
             [] \<Rightarrow> None
           | c # r' \<Rightarrow>
               if c = CHR '','' then cons_fst v (parse_elements n r')
               else if c = CHR '']'' then Some ([v], r')
               else None))"
| "parse_members 0 s = None"
| "parse_members (Suc n) s =
     (case skip_ws s of
        [] \<Rightarrow> None
      | q # r \<Rightarrow>
          if q \<noteq> CHR 0x22 then None
          else
            (case parse_string_chars r of
               None \<Rightarrow> None
             | Some (k, r1) \<Rightarrow>
                 (case skip_ws r1 of
                    [] \<Rightarrow> None
                  | c # r2 \<Rightarrow>
                      if c \<noteq> CHR '':'' then None
                      else
                        (case parse_value n r2 of
                           None \<Rightarrow> None
                         | Some (v, r3) \<Rightarrow>
                             (case skip_ws r3 of
                                [] \<Rightarrow> None
                              | d # r4 \<Rightarrow>
                                  if d = CHR '','' then cons_fst (k, v) (parse_members n r4)
                                  else if d = CHR ''}'' then Some ([(k, v)], r4)
                                  else None)))))"

text \<open>JSON.parse: one value, white space around it, nothing else.\<close>

definition json_parse :: "string \<Rightarrow> decimal jsval option" where
  "json_parse s =
     (case parse_value (2 * length s + 2) s of
        None \<Rightarrow> None
      | Some (v, rest) \<Rightarrow> if skip_ws rest = [] then Some v else None)"

subsection \<open>Writing JSON\<close>

definition hex_char :: "nat \<Rightarrow> char" where
  "hex_char d = (if d < 10 then char_of (48 + d) else char_of (87 + d))"

definition escape_char :: "char \<Rightarrow> string" where
  "escape_char c =
     (if c = CHR 0x22 then [CHR 0x5C, CHR 0x22]
      else if c = CHR 0x5C then [CHR 0x5C, CHR 0x5C]
      else if c = CHR 0x08 then [CHR 0x5C, CHR ''b'']
      else if c = CHR 0x0C then [CHR 0x5C, CHR ''f'']
      else if c = CHR 0x0A then [CHR 0x5C, CHR ''n'']
      else if c = CHR 0x0D then [CHR 0x5C, CHR ''r'']
      else if c = CHR 0x09 then [CHR 0x5C, CHR ''t'']
      else if of_char c < (32::nat) then
        [CHR 0x5C, CHR ''u'', CHR ''0'', CHR ''0'',
         hex_char (of_char c div 16), hex_char (of_char c mod 16)]
      else [c])"

definition quote :: "string \<Rightarrow> string" where
  "quote s = [CHR 0x22] @ concat (map escape_char s) @ [CHR 0x22]"

text \<open>JSON.stringify of a value read by JSON.parse or built from such values, strings and
  arrays (the module only ever passes the history array).  An undefined array element and
  NaN are written as null; an undefined member is left out.\<close>

fun json_stringify :: "decimal jsval \<Rightarrow> string"
  and stringify_elements :: "decimal jsval list \<Rightarrow> string list"
  and stringify_members :: "(string \<times> decimal jsval) list \<Rightarrow> string list"
where
  "json_stringify JUndefined = ''null''"
| "json_stringify JNull = ''null''"
| "json_stringify (JBool b) = (if b then ''true'' else ''false'')"
| "json_stringify (JNum d) = (case d of NaN \<Rightarrow> ''null'' | _ \<Rightarrow> decimal_toString d)"
| "json_stringify (JStr s) = quote s"
| "json_stringify (JArr xs) = ''['' @ join_comma (stringify_elements xs) @ '']''"
| "json_stringify (JObj fs) = ''{'' @ join_comma (stringify_members fs) @ ''}''"
| "stringify_elements [] = []"
| "stringify_elements (x # xs) = json_stringify x # stringify_elements xs"
| "stringify_members [] = []"
| "stringify_members ((k, v) # fs) =
     (case v of
        JUndefined \<Rightarrow> stringify_members fs
      | _ \<Rightarrow> (quote k @ '':'' @ json_stringify v) # stringify_members fs)"

definition reference_runtime :: "decimal js_runtime" where
  "reference_runtime =
     \<lparr>JSON_parse = json_parse, JSON_stringify = json_stringify,
      Number_add = decimal_add, Number_toString = decimal_toString,
      Number_truthy = decimal_truthy, Number_one = Decimal 1 0,
      Number_zero = Decimal 0 0, Number_NaN = NaN\<rparr>"

section \<open>Notions used to state the properties\<close>

text \<open>The text that one complete line adds to \<^verbatim>\<open>chunkContent\<close>.\<close>

definition line_fragment :: "'n js_runtime \<Rightarrow> string \<Rightarrow> string" where
  "line_fragment rt line =
     (let content = parseSSELine rt line in
      if truthy rt content then to_string rt content else [])"

text \<open>The complete (newline-terminated) lines of a stream, and the concatenation of
  their fragments.\<close>

definition complete_lines :: "string \<Rightarrow> string list" where
  "complete_lines s = butlast (split_nl s)"

definition stream_text :: "'n js_runtime \<Rightarrow> string \<Rightarrow> string" where
  "stream_text rt s = concat (map (line_fragment rt) (complete_lines s))"

text \<open>The decoder after a sequence of reads.\<close>

definition feed :: "'n js_runtime \<Rightarrow> decoder_state \<Rightarrow> string list \<Rightarrow> decoder_state" where
  "feed rt st cs = foldl (\<lambda>d c. fst (process_chunk rt d c)) st cs"

text \<open>A data line whose payload JSON.parse rejects.\<close>

definition malformed_data_line :: "'n js_runtime \<Rightarrow> string \<Rightarrow> bool" where
  "malformed_data_line rt line =
     (startsWith (trim line) DATA_PREFIX \<and> trim line \<noteq> DATA_PREFIX @ DONE_MESSAGE \<and>
      JSON_parse rt (slice (trim line) (length DATA_PREFIX)) = None)"

text \<open>A data line whose payload JSON.parse reads as \<open>J\<close>.\<close>

definition data_line_of :: "'n js_runtime \<Rightarrow> string \<Rightarrow> 'n jsval \<Rightarrow> bool" where
  "data_line_of rt line J =
     (startsWith (trim line) DATA_PREFIX \<and> trim line \<noteq> DATA_PREFIX @ DONE_MESSAGE \<and>
      JSON_parse rt (slice (trim line) (length DATA_PREFIX)) = Some J)"

text \<open>The value at the path \<^verbatim>\<open>choices[0].delta\<close> of a payload, undefined when the path
  does not exist.\<close>

definition payload_delta :: "'n jsval \<Rightarrow> 'n jsval" where
  "payload_delta J =
     (case js_get J ''choices'' of
        Inl e \<Rightarrow> JUndefined
      | Inr choices \<Rightarrow>
          (case js_get choices ''0'' of
             Inl e \<Rightarrow> JUndefined
           | Inr choice \<Rightarrow>
               (case optional_delta choice of Inl e \<Rightarrow> JUndefined | Inr delta \<Rightarrow> delta)))"

fun is_object :: "'n jsval \<Rightarrow> bool" where
  "is_object (JObj fs) = True"
| "is_object _ = False"

text \<open>An optional text field of a delta: absent (undefined or null), or a string.\<close>

fun text_field :: "'n jsval \<Rightarrow> string option" where
  "text_field JUndefined = Some []"
| "text_field JNull = Some []"
| "text_field (JStr s) = Some s"
| "text_field _ = None"

definition LF :: char where
  "LF = CHR 0x0A"

text \<open>The state after a sequence of events.\<close>

definition run_events ::
  "'n js_runtime \<Rightarrow> string \<Rightarrow> 'n controller \<Rightarrow> event list \<Rightarrow> 'n controller" where
  "run_events rt prompt st evs = foldl (step rt prompt) st evs"

text \<open>
  The history invariant: the history in memory holds only user and assistant records;
  the persisted history record, when there is one, is the serialisation of such a list;
  every request sent carried the system message followed by such a list.
\<close>

definition persisted_ok :: "'n js_runtime \<Rightarrow> browser \<Rightarrow> bool" where
  "persisted_ok rt b =
     (case items b CHAT_HISTORY of
        None \<Rightarrow> True
      | Some s \<Rightarrow> (\<exists>h. list_all is_chat_record h \<and> s = JSON_stringify rt (JArr h)))"

definition request_ok :: "string \<Rightarrow> 'n request \<Rightarrow> bool" where
  "request_ok prompt r =
     (\<exists>h. list_all is_chat_record h \<and> messages r = message ''system'' prompt # h)"

definition history_inv :: "'n js_runtime \<Rightarrow> string \<Rightarrow> 'n controller \<Rightarrow> bool" where
  "history_inv rt prompt st =
     (list_all is_chat_record (chatHistory st) \<and>
      persisted_ok rt (browser st) \<and>
      list_all (request_ok prompt) (requests st))"

text \<open>A browser whose storage holds the given items and works.\<close>

definition working_browser :: "(string \<rightharpoonup> string) \<Rightarrow> browser" where
  "working_browser m = \<lparr>items = m, fault = NoFault, console = []\<rparr>"

text \<open>
  What the decoder state holds after the stream prefix \<open>p\<close> has been read, whatever the
  chunks were: the unterminated tail of \<open>p\<close> is buffered, and the accumulated text is the
  text of the complete lines of \<open>p\<close> up to leading line breaks.
\<close>

definition decoder_inv :: "'n js_runtime \<Rightarrow> decoder_state \<Rightarrow> string \<Rightarrow> bool" where
  "decoder_inv rt st p =
     (buffer st = last (split_nl p) \<and>
      strip_leading_newlines (fullResponse st) = strip_leading_newlines (stream_text rt p) \<and>
      (isFirstContent st \<longrightarrow> fullResponse st = [] \<and> stream_text rt p = []) \<and>
      (strip_leading_newlines (stream_text rt p) = stream_text rt p \<longrightarrow>
         fullResponse st = stream_text rt p))"

section \<open>The bound of the reference JSON reader is never reached\<close>

text \<open>
  A successful call of the reader consumes input, and succeeds in the same way with any
  bound that is at least twice the number of characters consumed.  Hence \<open>json_parse\<close>
  returns the value whenever some bound lets the reader accept the whole text, and it
  returns \<open>None\<close> only for texts that the reader rejects under every bound.
\<close>

lemma length_skip_ws: "length (skip_ws s) \<le> length s"
  by (simp add: skip_ws_def length_dropWhile_le)

lemma skip_ws_Cons: "skip_ws s = c # r \<Longrightarrow> length r < length s"
  using length_skip_ws [of s] by simp

lemma cons_fst_Some:
  "cons_fst x r = Some (ys, rest) \<longleftrightarrow> (\<exists>xs. r = Some (xs, rest) \<and> ys = x # xs)"
  by (cases r) (auto simp: cons_fst_def)

lemma parse_number_shorter:
  assumes "parse_number s = Some (d, r)"
  shows "length r < length s"
proof -
  define neg where "neg = (s \<noteq> [] \<and> hd s = CHR ''-'')"
  define s1 where "s1 = (if neg then tl s else s)"
  define ip where "ip = takeWhile is_digit s1"
  define s2 where "s2 = dropWhile is_digit s1"
  define has_frac where "has_frac = (s2 \<noteq> [] \<and> hd s2 = CHR ''.'')"
  define fp where "fp = (if has_frac then takeWhile is_digit (tl s2) else [])"
  define s3 where "s3 = (if has_frac then dropWhile is_digit (tl s2) else s2)"
  define has_exp where "has_exp = (s3 \<noteq> [] \<and> (hd s3 = CHR ''e'' \<or> hd s3 = CHR ''E''))"
  define s4 where "s4 = (if has_exp then tl s3 else s3)"
  define exp_neg where "exp_neg = (has_exp \<and> s4 \<noteq> [] \<and> hd s4 = CHR ''-'')"
  define s5 where "s5 = (if has_exp \<and> s4 \<noteq> [] \<and> (hd s4 = CHR ''-'' \<or> hd s4 = CHR ''+'') then tl s4 else s4)"
  define ep where "ep = (if has_exp then takeWhile is_digit s5 else [])"
  define s6 where "s6 = (if has_exp then dropWhile is_digit s5 else s3)"
  define bad where "bad = (ip = [] \<or> (1 < length ip \<and> hd ip = CHR ''0'') \<or> (has_frac \<and> fp = [])
            \<or> (has_exp \<and> ep = []))"
  define val where "val =
           (let m = int (digits_value (ip @ fp));
                e = (if exp_neg then - int (digits_value ep) else int (digits_value ep))
                    - int (length fp)
            in Decimal (if neg then - m else m) e)"
  have eq: "parse_number s = (if bad then None else Some (val, s6))"
    unfolding parse_number_def bad_def val_def s6_def ep_def s5_def exp_neg_def s4_def has_exp_def
      s3_def fp_def has_frac_def s2_def ip_def s1_def neg_def Let_def
    by (rule refl)
  have nb: "\<not> bad" and r: "r = s6"
    using assms unfolding eq by (simp_all split: if_splits)
  have ip: "ip \<noteq> []" using nb by (simp add: bad_def)
  have "length s1 \<le> length s" by (simp add: s1_def)
  moreover have "length s2 < length s1"
  proof -
    have a: "length ip + length s2 = length s1"
      unfolding ip_def s2_def by (metis length_append takeWhile_dropWhile_id)
    have b: "0 < length ip" using ip by simp
    from a b show ?thesis by arith
  qed
  moreover have "length s3 \<le> length s2"
    using length_dropWhile_le [of is_digit "tl s2"] by (auto simp: s3_def)
  moreover have 4: "length s4 \<le> length s3" by (simp add: s4_def)
  moreover have 5: "length s5 \<le> length s4" by (simp add: s5_def)
  moreover have "length s6 \<le> length s3"
    using length_dropWhile_le [of is_digit s5] 4 5 by (simp add: s6_def)
  ultimately show ?thesis using r by simp
qed

lemma parse_string_chars_shorter:
  "parse_string_chars s = Some (t, r) \<Longrightarrow> length r < length s"
proof (induction "length s" arbitrary: s t r rule: less_induct)
  case less
  show ?case
  proof (cases s)
    case Nil
    then show ?thesis using less.prems by simp
  next
    case (Cons c cs)
    have IH: "parse_string_chars s' = Some (t', r') \<Longrightarrow> length s' < length s \<Longrightarrow>
        length r' < length s'" for s' t' r'
      using less.hyps by blast
    show ?thesis
      using less.prems Cons
      by (auto simp: cons_fst_Some split: if_splits list.splits option.splits dest!: IH)
  qed
qed


lemma Suc_fuel:
  assumes "0 < k" and "\<And>m'. 2 * k \<le> m' + 2 \<Longrightarrow> f (Suc m') = x"
  shows "\<forall>m. 2 * k \<le> m + 1 \<longrightarrow> f m = (x::'a)"
proof (intro allI impI)
  fix m :: nat
  assume b: "2 * k \<le> m + 1"
  then obtain m' where m: "m = Suc m'" using assms(1) by (cases m) auto
  show "f m = x" unfolding m using b m by (intro assms(2)) simp
qed

lemma Suc_fuel2:
  assumes "0 < k" and "\<And>m'. 2 * k \<le> m' + 1 \<Longrightarrow> f (Suc m') = x"
  shows "\<forall>m. 2 * k \<le> m \<longrightarrow> f m = (x::'a)"
proof (intro allI impI)
  fix m :: nat
  assume b: "2 * k \<le> m"
  then obtain m' where m: "m = Suc m'" using assms(1) by (cases m) auto
  show "f m = x" unfolding m using b m by (intro assms(2)) simp
qed

lemma parse_enough:
  "(\<forall>s v r. parse_value n s = Some (v, r) \<longrightarrow>
      length r < length s \<and>
      (\<forall>m. 2 * (length s - length r) \<le> m + 1 \<longrightarrow> parse_value m s = Some (v, r))) \<and>
   (\<forall>s vs r. parse_elements n s = Some (vs, r) \<longrightarrow>
      length r < length s \<and>
      (\<forall>m. 2 * (length s - length r) \<le> m \<longrightarrow> parse_elements m s = Some (vs, r))) \<and>
   (\<forall>s ms r. parse_members n s = Some (ms, r) \<longrightarrow>
      length r < length s \<and>
      (\<forall>m. 2 * (length s - length r) \<le> m \<longrightarrow> parse_members m s = Some (ms, r)))"
proof (induction n)
  case 0
  show ?case by simp
next
  case (Suc n)
  have V: "length r < length s \<and>
      (\<forall>m. 2 * (length s - length r) \<le> m + 1 \<longrightarrow> parse_value m s = Some (v, r))"
    if "parse_value n s = Some (v, r)" for s v r
    using Suc.IH that by blast
  have E: "length r < length s \<and>
      (\<forall>m. 2 * (length s - length r) \<le> m \<longrightarrow> parse_elements m s = Some (vs, r))"
    if "parse_elements n s = Some (vs, r)" for s vs r
    using Suc.IH that by blast
  have M: "length r < length s \<and>
      (\<forall>m. 2 * (length s - length r) \<le> m \<longrightarrow> parse_members m s = Some (ms, r))"
    if "parse_members n s = Some (ms, r)" for s ms r
    using Suc.IH that by blast
  have V': "length r < length s \<and>
      (\<forall>m. 2 * (length s - length r) \<le> m + 1 \<longrightarrow> parse_value m s = Some (v, r))"
    if p: "parse_value (Suc n) s = Some (v, r)" for s v r
  proof -
    obtain c r0 where sk: "skip_ws s = c # r0"
      using p by (cases "skip_ws s") auto
    have l0: "length r0 < length s" using sk by (rule skip_ws_Cons)
    show ?thesis
    proof (cases "c = CHR ''{''")
      case True
      show ?thesis
      proof (cases "skip_ws r0 \<noteq> [] \<and> hd (skip_ws r0) = CHR ''}''")
        case e: True
        have v: "v = JObj []" "r = tl (skip_ws r0)" using p sk True e by auto
        have l: "length r < length s"
          using l0 length_skip_ws [of r0] v by simp
        then have k: "0 < length s - length r" by simp
        have "\<forall>m. 2 * (length s - length r) \<le> m + 1 \<longrightarrow> parse_value m s = Some (v, r)"
          by (rule Suc_fuel [OF k]) (use sk True e v in simp)
        then show ?thesis using l by simp
      next
        case ne: False
        obtain ms where m: "parse_members n r0 = Some (ms, r)" "v = JObj ms"
          using p sk True ne by auto
        note ih = M [OF m(1)]
        have li: "length r < length r0" using ih by simp
        have l: "length r < length s" using li l0 by simp
        then have k: "0 < length s - length r" by simp
        have "\<forall>m. 2 * (length s - length r) \<le> m + 1 \<longrightarrow> parse_value m s = Some (v, r)"
        proof (rule Suc_fuel [OF k])
          fix m' assume "2 * (length s - length r) \<le> m' + 2"
          then have "2 * (length r0 - length r) \<le> m'" using l0 li by arith
          then have "parse_members m' r0 = Some (ms, r)" using ih by blast
          then show "parse_value (Suc m') s = Some (v, r)"
            using sk True ne m(2) by auto
        qed
        then show ?thesis using l by simp
      qed
    next
      case nb: False
      show ?thesis
      proof (cases "c = CHR ''[''")
        case True
        show ?thesis
        proof (cases "skip_ws r0 \<noteq> [] \<and> hd (skip_ws r0) = CHR '']''")
          case e: True
          have v: "v = JArr []" "r = tl (skip_ws r0)" using p sk nb True e by auto
          have l: "length r < length s"
            using l0 length_skip_ws [of r0] v by simp
          then have k: "0 < length s - length r" by simp
          have "\<forall>m. 2 * (length s - length r) \<le> m + 1 \<longrightarrow> parse_value m s = Some (v, r)"
            by (rule Suc_fuel [OF k]) (use sk nb True e v in simp)
          then show ?thesis using l by simp
        next
          case ne: False
          obtain vs where m: "parse_elements n r0 = Some (vs, r)" "v = JArr vs"
            using p sk nb True ne by auto
          note ih = E [OF m(1)]
          have li: "length r < length r0" using ih by simp
          have l: "length r < length s" using li l0 by simp
          then have k: "0 < length s - length r" by simp
          have "\<forall>m. 2 * (length s - length r) \<le> m + 1 \<longrightarrow> parse_value m s = Some (v, r)"
          proof (rule Suc_fuel [OF k])
            fix m' assume "2 * (length s - length r) \<le> m' + 2"
            then have "2 * (length r0 - length r) \<le> m'" using l0 li by arith
            then have "parse_elements m' r0 = Some (vs, r)" using ih by blast
            then show "parse_value (Suc m') s = Some (v, r)"
              using sk nb True ne m(2) by auto
          qed
          then show ?thesis using l by simp
        qed
      next
        case na: False
        have eq: "parse_value (Suc m') s = parse_value (Suc n) s" for m'
          using sk nb na by simp
        have l: "length r < length s"
        proof (cases "c = CHR 0x22")
          case True
          then obtain str where "parse_string_chars r0 = Some (str, r)"
            using p sk nb na by auto
          then show ?thesis using parse_string_chars_shorter l0 by fastforce
        next
          case nq: False
          have l1: "length (c # r0) \<le> length s" using l0 by simp
          have "r = drop 4 (c # r0) \<and> 4 \<le> length (c # r0) \<or>
                r = drop 5 (c # r0) \<and> 5 \<le> length (c # r0) \<or>
                (\<exists>d. parse_number (c # r0) = Some (d, r))"
            using p sk nb na nq
            by (auto split: if_splits)
          then show ?thesis
            using l1 parse_number_shorter by fastforce
        qed
        then have k: "0 < length s - length r" by simp
        have "\<forall>m. 2 * (length s - length r) \<le> m + 1 \<longrightarrow> parse_value m s = Some (v, r)"
          by (rule Suc_fuel [OF k]) (use eq p in simp)
        then show ?thesis using l by simp
      qed
    qed
  qed
  have E': "length r < length s \<and>
      (\<forall>m. 2 * (length s - length r) \<le> m \<longrightarrow> parse_elements m s = Some (vs, r))"
    if p: "parse_elements (Suc n) s = Some (vs, r)" for s vs r
  proof -
    obtain v r1 where pv: "parse_value n s = Some (v, r1)"
      using p by (cases "parse_value n s") auto
    obtain c r2 where sk: "skip_ws r1 = c # r2"
      using p pv by (cases "skip_ws r1") auto
    note iv = V [OF pv]
    have l2: "length r2 < length r1" using sk by (rule skip_ws_Cons)
    show ?thesis
    proof (cases "c = CHR '',''")
      case True
      obtain vs' where pe: "parse_elements n r2 = Some (vs', r)" "vs = v # vs'"
        using p pv sk True by (auto simp: cons_fst_Some)
      note ie = E [OF pe(1)]
      have lv: "length r1 < length s" using iv by simp
      have le: "length r < length r2" using ie by simp
      have l: "length r < length s" using lv le l2 by simp
      then have k: "0 < length s - length r" by simp
      have "\<forall>m. 2 * (length s - length r) \<le> m \<longrightarrow> parse_elements m s = Some (vs, r)"
      proof (rule Suc_fuel2 [OF k])
        fix m' assume b: "2 * (length s - length r) \<le> m' + 1"
        have "2 * (length s - length r1) \<le> m' + 1" using b lv le l2 by arith
        then have 1: "parse_value m' s = Some (v, r1)" using iv by blast
        have "2 * (length r2 - length r) \<le> m'" using b lv le l2 by arith
        then have 2: "parse_elements m' r2 = Some (vs', r)" using ie by blast
        show "parse_elements (Suc m') s = Some (vs, r)"
          using 1 2 sk True pe(2) by (simp add: cons_fst_def)
      qed
      then show ?thesis using l by simp
    next
      case False
      then have c: "c = CHR '']''" and v: "vs = [v]" "r = r2"
        using p pv sk by (auto split: if_splits)
      have lv: "length r1 < length s" using iv by simp
      have l: "length r < length s" using lv l2 v by simp
      then have k: "0 < length s - length r" by simp
      have "\<forall>m. 2 * (length s - length r) \<le> m \<longrightarrow> parse_elements m s = Some (vs, r)"
      proof (rule Suc_fuel2 [OF k])
        fix m' assume b: "2 * (length s - length r) \<le> m' + 1"
        have "2 * (length s - length r1) \<le> m' + 1" using b lv l2 v(2) by simp
        then have 1: "parse_value m' s = Some (v, r1)" using iv by blast
        show "parse_elements (Suc m') s = Some (vs, r)"
          using 1 sk c v by simp
      qed
      then show ?thesis using l by simp
    qed
  qed
  have M': "length r < length s \<and>
      (\<forall>m. 2 * (length s - length r) \<le> m \<longrightarrow> parse_members m s = Some (ms, r))"
    if p: "parse_members (Suc n) s = Some (ms, r)" for s ms r
  proof -
    obtain q r0 where sq: "skip_ws s = q # r0"
      using p by (cases "skip_ws s") auto
    have q: "q = CHR 0x22" using p sq by (auto split: if_splits)
    obtain k0 r1 where ps: "parse_string_chars r0 = Some (k0, r1)"
      using p sq q by (cases "parse_string_chars r0") auto
    obtain c r2 where sc: "skip_ws r1 = c # r2"
      using p sq q ps by (cases "skip_ws r1") auto
    have c: "c = CHR '':''" using p sq q ps sc by (auto split: if_splits)
    obtain v r3 where pv: "parse_value n r2 = Some (v, r3)"
      using p sq q ps sc c by (cases "parse_value n r2") auto
    obtain d r4 where sd: "skip_ws r3 = d # r4"
      using p sq q ps sc c pv by (cases "skip_ws r3") auto
    note iv = V [OF pv]
    have lv: "length r3 < length r2" using iv by simp
    have l0: "length r0 < length s" using sq by (rule skip_ws_Cons)
    have l1: "length r1 < length r0" using ps by (rule parse_string_chars_shorter)
    have l2: "length r2 < length r1" using sc by (rule skip_ws_Cons)
    have l4: "length r4 < length r3" using sd by (rule skip_ws_Cons)
    show ?thesis
    proof (cases "d = CHR '',''")
      case True
      obtain ms' where pm: "parse_members n r4 = Some (ms', r)" "ms = (k0, v) # ms'"
        using p sq q ps sc c pv sd True by (auto simp: cons_fst_Some)
      note im = M [OF pm(1)]
      have lm: "length r < length r4" using im by simp
      have l: "length r < length s" using lv lm l0 l1 l2 l4 by simp
      then have k: "0 < length s - length r" by simp
      have "\<forall>m. 2 * (length s - length r) \<le> m \<longrightarrow> parse_members m s = Some (ms, r)"
      proof (rule Suc_fuel2 [OF k])
        fix m' assume b: "2 * (length s - length r) \<le> m' + 1"
        have "2 * (length r2 - length r3) \<le> m' + 1" using b lv lm l0 l1 l2 l4 by arith
        then have 1: "parse_value m' r2 = Some (v, r3)" using iv by blast
        have "2 * (length r4 - length r) \<le> m'" using b lv lm l0 l1 l2 l4 by arith
        then have 2: "parse_members m' r4 = Some (ms', r)" using im by blast
        show "parse_members (Suc m') s = Some (ms, r)"
          using 1 2 sq q ps sc c sd True pm(2) by (simp add: cons_fst_def)
      qed
      then show ?thesis using l by simp
    next
      case False
      then have d: "d = CHR ''}''" and v: "ms = [(k0, v)]" "r = r4"
        using p sq q ps sc c pv sd by (auto split: if_splits)
      have l: "length r < length s" using lv l0 l1 l2 l4 v by simp
      then have k: "0 < length s - length r" by simp
      have "\<forall>m. 2 * (length s - length r) \<le> m \<longrightarrow> parse_members m s = Some (ms, r)"
      proof (rule Suc_fuel2 [OF k])
        fix m' assume b: "2 * (length s - length r) \<le> m' + 1"
        have "2 * (length r2 - length r3) \<le> m' + 1" using b lv l0 l1 l2 l4 v(2) by simp
        then have 1: "parse_value m' r2 = Some (v, r3)" using iv by blast
        show "parse_members (Suc m') s = Some (ms, r)"
          using 1 sq q ps sc c sd d v by simp
      qed
      then show ?thesis using l by simp
    qed
  qed
  show ?case using V' E' M' by blast
qed

lemma json_parse_enough:
  assumes "parse_value m s = Some (v, rest)" and "skip_ws rest = []"
  shows "json_parse s = Some v"
proof -
  have "2 * (length s - length rest) \<le> (2 * length s + 2) + 1" by simp
  then have "parse_value (2 * length s + 2) s = Some (v, rest)"
    using parse_enough [of m] assms(1) by blast
  then show ?thesis using assms(2) by (simp add: json_parse_def)
qed

section \<open>Lines and chunks\<close>

lemma split_nl_not_empty: "split_nl s \<noteq> []"
  by (induction s) (auto simp: Let_def)

lemma split_nl_append:
  "split_nl (a @ b) = butlast (split_nl a) @ split_nl (last (split_nl a) @ b)"
proof (induction a)
  case Nil
  show ?case by simp
next
  case (Cons c cs)
  obtain l ls where r: "split_nl cs = l # ls"
    using split_nl_not_empty [of cs] by (cases "split_nl cs") auto
  show ?case
  proof (cases "c = CHR 0x0A")
    case True
    then show ?thesis using Cons r by (simp add: Let_def)
  next
    case False
    show ?thesis
    proof (cases ls)
      case Nil
      then show ?thesis using Cons r False by (simp add: Let_def)
    next
      case (Cons l' ls')
      then show ?thesis using Cons.IH r False by (simp add: Let_def)
    qed
  qed
qed

lemma split_nl_no_newline: "CHR 0x0A \<notin> set s \<Longrightarrow> split_nl s = [s]"
  by (induction s) (auto simp: Let_def)

lemma collect_lines_concat: "foldl (append_content rt) acc ls = acc @ concat (map (line_fragment rt) ls)"
  by (induction ls arbitrary: acc) (auto simp: append_content_def line_fragment_def Let_def)

section \<open>The decoder invariant\<close>

lemma complete_lines_append:
  "complete_lines (a @ b) = complete_lines a @ complete_lines (last (split_nl a) @ b)"
  unfolding complete_lines_def
  by (subst split_nl_append) (simp add: butlast_append split_nl_not_empty)

lemma last_split_nl_append:
  "last (split_nl (a @ b)) = last (split_nl (last (split_nl a) @ b))"
  by (subst split_nl_append) (simp add: split_nl_not_empty)

lemma stream_text_append:
  "stream_text rt (a @ b) = stream_text rt a @ stream_text rt (last (split_nl a) @ b)"
  unfolding stream_text_def by (subst complete_lines_append) simp

lemma collect_lines_text: "collect_lines rt (butlast (split_nl s)) = stream_text rt s"
  by (simp add: collect_lines_def collect_lines_concat stream_text_def complete_lines_def)

lemma strip_append:
  "strip_leading_newlines (x @ y) =
     (if strip_leading_newlines x = [] then strip_leading_newlines y
      else strip_leading_newlines x @ y)"
  unfolding strip_leading_newlines_def
  by (induction x) auto

lemma strip_idem: "strip_leading_newlines (strip_leading_newlines x) = strip_leading_newlines x"
  unfolding strip_leading_newlines_def by (induction x) auto

lemma strip_fixed_append:
  "x \<noteq> [] \<Longrightarrow> strip_leading_newlines (x @ y) = x @ y \<Longrightarrow> strip_leading_newlines x = x"
proof (cases x)
  case Nil
  then show ?thesis by (simp add: strip_leading_newlines_def)
next
  case (Cons a as)
  assume fixed: "strip_leading_newlines (x @ y) = x @ y"
  show ?thesis
  proof (cases "a = CHR 0x0D \<or> a = CHR 0x0A")
    case True
    have "length (dropWhile (\<lambda>c. c = CHR 0x0D \<or> c = CHR 0x0A) (as @ y)) \<le> length (as @ y)"
      by (rule length_dropWhile_le)
    moreover have "dropWhile (\<lambda>c. c = CHR 0x0D \<or> c = CHR 0x0A) (as @ y) = a # as @ y"
      using fixed Cons True by (simp add: strip_leading_newlines_def)
    ultimately show ?thesis by simp
  next
    case False
    then show ?thesis using Cons by (simp add: strip_leading_newlines_def)
  qed
qed

lemma process_chunk_fst:
  "fst (process_chunk rt st c) =
     (let t = stream_text rt (buffer st @ c); b = last (split_nl (buffer st @ c)) in
      if t \<noteq> [] then
        \<lparr>fullResponse = fullResponse st @ (if isFirstContent st then strip_leading_newlines t else t),
         buffer = b, isFirstContent = False\<rparr>
      else st\<lparr>buffer := b\<rparr>)"
  by (simp add: process_chunk_def Let_def collect_lines_text)

lemma decoder_inv_step:
  assumes "decoder_inv rt st p"
  shows "decoder_inv rt (fst (process_chunk rt st c)) (p @ c)"
proof -
  let ?t = "stream_text rt (buffer st @ c)"
  let ?T = "stream_text rt p"
  have buf: "buffer st = last (split_nl p)"
    and s1: "strip_leading_newlines (fullResponse st) = strip_leading_newlines ?T"
    and s2: "isFirstContent st \<longrightarrow> fullResponse st = [] \<and> ?T = []"
    and s3: "strip_leading_newlines ?T = ?T \<longrightarrow> fullResponse st = ?T"
    using assms by (simp_all add: decoder_inv_def)
  have tt: "stream_text rt (p @ c) = ?T @ ?t"
    using stream_text_append [of rt p c] by (simp add: buf)
  have lastb: "last (split_nl (p @ c)) = last (split_nl (buffer st @ c))"
    using last_split_nl_append [of p c] by (simp add: buf)
  show ?thesis
  proof (cases "?t = []")
    case True
    then show ?thesis
      using s1 s2 s3 by (simp add: decoder_inv_def process_chunk_fst tt lastb)
  next
    case False
    show ?thesis
    proof (cases "isFirstContent st")
      case True
      then have "fullResponse st = []" "?T = []" using s2 by simp_all
      then show ?thesis
        using False True
        by (simp add: decoder_inv_def process_chunk_fst tt lastb strip_idem)
    next
      case first: False
      have a: "strip_leading_newlines (fullResponse st @ ?t) = strip_leading_newlines (?T @ ?t)"
        using s1 by (simp add: strip_append)
      have b: "fullResponse st @ ?t = ?T @ ?t" if fixed: "strip_leading_newlines (?T @ ?t) = ?T @ ?t"
      proof (cases "?T = []")
        case True
        then have "fullResponse st = []" using s3 by (simp add: strip_leading_newlines_def)
        then show ?thesis using True by simp
      next
        case False
        then have "strip_leading_newlines ?T = ?T" using fixed by (rule strip_fixed_append)
        then show ?thesis using s3 by simp
      qed
      show ?thesis
        using False first a b
        by (simp add: decoder_inv_def process_chunk_fst tt lastb)
    qed
  qed
qed

lemma decoder_inv_initial: "decoder_inv rt initial_decoder []"
  by (simp add: decoder_inv_def initial_decoder_def stream_text_def complete_lines_def
      strip_leading_newlines_def)

lemma decoder_inv_feed:
  "decoder_inv rt st p \<Longrightarrow> decoder_inv rt (feed rt st cs) (p @ concat cs)"
proof (induction cs arbitrary: st p)
  case Nil
  then show ?case by (simp add: feed_def)
next
  case (Cons c cs)
  have "decoder_inv rt (feed rt (fst (process_chunk rt st c)) cs) ((p @ c) @ concat cs)"
    by (rule Cons.IH) (rule decoder_inv_step [OF Cons.prems])
  then show ?case by (simp add: feed_def)
qed

lemma read_loop_done:
  "snd (read_loop rt st cs StreamDone) = Inr (fullResponse (feed rt st cs))"
  by (induction cs arbitrary: st) (simp_all add: feed_def split_beta)

lemma processStream_done:
  "snd (processStream rt \<lparr>chunks = cs, finish = StreamDone\<rparr>) =
     Inr (fullResponse (feed rt initial_decoder cs))"
  by (simp add: processStream_def read_loop_done)

lemma single_chunk_text:
  "fullResponse (feed rt initial_decoder [s]) = strip_leading_newlines (stream_text rt s)"
  by (simp add: feed_def process_chunk_fst initial_decoder_def Let_def strip_leading_newlines_def)

lemma last_split_nl_no_newline: "CHR 0x0A \<notin> set (last (split_nl s))"
proof (induction s)
  case Nil
  show ?case by simp
next
  case (Cons c cs)
  obtain l ls where r: "split_nl cs = l # ls"
    using split_nl_not_empty [of cs] by (cases "split_nl cs") auto
  show ?case using Cons r by (cases ls) (auto simp: Let_def)
qed

lemma split_nl_line: "CHR 0x0A \<notin> set a \<Longrightarrow> split_nl (a @ CHR 0x0A # rest) = a # split_nl rest"
  by (induction a) (auto simp: Let_def)

lemma process_chunk_no_newline:
  assumes "CHR 0x0A \<notin> set (buffer st)" "CHR 0x0A \<notin> set c"
  shows "process_chunk rt st c = (st\<lparr>buffer := buffer st @ c\<rparr>, None)"
proof -
  have "split_nl (buffer st @ c) = [buffer st @ c]"
    using assms by (simp add: split_nl_no_newline)
  then show ?thesis
    by (simp add: process_chunk_def collect_lines_def)
qed

lemma feed_snoc: "feed rt st (cs @ [c]) = fst (process_chunk rt (feed rt st cs) c)"
  by (simp add: feed_def)

lemma buffer_feed_no_newline: "CHR 0x0A \<notin> set (buffer (feed rt initial_decoder cs))"
proof -
  have "decoder_inv rt (feed rt initial_decoder cs) ([] @ concat cs)"
    by (rule decoder_inv_feed) (rule decoder_inv_initial)
  then have "buffer (feed rt initial_decoder cs) = last (split_nl (concat cs))"
    by (simp add: decoder_inv_def)
  then show ?thesis by (simp add: last_split_nl_no_newline)
qed

lemma complete_lines_tail:
  assumes "CHR 0x0A \<notin> set t"
  shows "complete_lines (a @ t) = complete_lines a"
proof -
  have "CHR 0x0A \<notin> set (last (split_nl a) @ t)"
    using assms by (simp add: last_split_nl_no_newline)
  then have "split_nl (last (split_nl a) @ t) = [last (split_nl a) @ t]"
    by (rule split_nl_no_newline)
  then have "complete_lines (last (split_nl a) @ t) = []"
    by (simp add: complete_lines_def)
  then show ?thesis
    using complete_lines_append [of a t] by simp
qed

lemma stream_text_tail:
  "CHR 0x0A \<notin> set t \<Longrightarrow> stream_text rt (a @ t) = stream_text rt a"
  by (simp add: stream_text_def complete_lines_tail)

lemma process_chunk_tail:
  assumes "CHR 0x0A \<notin> set t"
  shows "fullResponse (fst (process_chunk rt st (c @ t))) =
         fullResponse (fst (process_chunk rt st c))"
proof -
  have "stream_text rt ((buffer st @ c) @ t) = stream_text rt (buffer st @ c)"
    using assms by (rule stream_text_tail)
  then show ?thesis
    by (simp add: process_chunk_fst Let_def)
qed

section \<open>Lines that yield no fragment\<close>

lemma js_get_field_undefined:
  "\<not> is_object d \<Longrightarrow> truthy rt d \<Longrightarrow> k \<noteq> ''0'' \<Longrightarrow> js_get d k = Inr JUndefined"
  by (cases d) auto

lemma extractContent_not_object:
  "\<not> is_object d \<Longrightarrow> extractContent rt d = Inr (JStr [])"
  by (cases "truthy rt d")
     (simp_all add: extractContent_def js_get_field_undefined js_or_def js_add_def to_primitive_def)

lemma parse_data_line_not_object:
  assumes "JSON_parse rt (slice t (length DATA_PREFIX)) = Some J" "\<not> is_object (payload_delta J)"
  shows "parse_data_line rt t = Inr (JStr []) \<or> (\<exists>e. parse_data_line rt t = Inl e)"
  using assms
  by (auto simp: parse_data_line_def payload_delta_def extractContent_not_object
      split: sum.splits)

lemma parseSSELine_blank: "trim x = [] \<Longrightarrow> parseSSELine rt x = JStr []"
  by (simp add: parseSSELine_def Let_def)

lemma parseSSELine_done: "trim x = DATA_PREFIX @ DONE_MESSAGE \<Longrightarrow> parseSSELine rt x = JStr []"
  by (simp add: parseSSELine_def Let_def)

lemma parseSSELine_malformed: "malformed_data_line rt x \<Longrightarrow> parseSSELine rt x = JStr []"
  by (simp add: parseSSELine_def malformed_data_line_def parse_data_line_def Let_def)

lemma parseSSELine_not_object:
  assumes "data_line_of rt line J" "\<not> is_object (payload_delta J)"
  shows "parseSSELine rt line = JStr []"
  using assms parse_data_line_not_object [of rt "trim line" J]
  by (auto simp: parseSSELine_def data_line_of_def Let_def)

lemma line_fragment_empty: "parseSSELine rt x = JStr [] \<Longrightarrow> line_fragment rt x = []"
  by (simp add: line_fragment_def)

lemma append_content_fragment: "append_content rt acc x = acc @ line_fragment rt x"
  by (simp add: append_content_def line_fragment_def Let_def)

lemma collect_lines_skip:
  "line_fragment rt x = [] \<Longrightarrow> collect_lines rt (pre @ x # post) = collect_lines rt (pre @ post)"
  by (simp add: collect_lines_def collect_lines_concat append_content_fragment)

lemma three_lines_text:
  assumes "CHR 0x0A \<notin> set a" "CHR 0x0A \<notin> set x" "CHR 0x0A \<notin> set b"
  shows "stream_text rt (a @ [CHR 0x0A] @ x @ [CHR 0x0A] @ b @ [CHR 0x0A]) =
     line_fragment rt a @ line_fragment rt x @ line_fragment rt b"
  using assms by (simp add: stream_text_def complete_lines_def split_nl_line)

section \<open>Properties of the stream decoder\<close>

text \<open>
  C1 (as amended).  Feeding the chunks of any partition of a stream through processStream
  and feeding the stream as one chunk both complete, and the text given to onComplete
  for the single chunk is the text given for the partition with its leading CR and LF
  characters removed.  The two texts are equal whenever the fragments of the complete
  lines of the stream, concatenated, do not begin with CR or LF.  (The leading line breaks
  are removed from the content of the first read that yields content, so the result
  depends on where the reads fall when the reply begins with line breaks.)
\<close>

theorem chunk_boundaries_up_to_leading_newlines:
  "\<exists>a b. snd (processStream rt \<lparr>chunks = cs, finish = StreamDone\<rparr>) = Inr a \<and>
         snd (processStream rt \<lparr>chunks = [concat cs], finish = StreamDone\<rparr>) = Inr b \<and>
         strip_leading_newlines a = b \<and>
         (strip_leading_newlines (stream_text rt (concat cs)) = stream_text rt (concat cs)
            \<longrightarrow> a = b)"
proof -
  have "decoder_inv rt (feed rt initial_decoder cs) ([] @ concat cs)"
    by (rule decoder_inv_feed) (rule decoder_inv_initial)
  then have "strip_leading_newlines (fullResponse (feed rt initial_decoder cs)) =
        strip_leading_newlines (stream_text rt (concat cs))"
    and "strip_leading_newlines (stream_text rt (concat cs)) = stream_text rt (concat cs) \<longrightarrow>
        fullResponse (feed rt initial_decoder cs) = stream_text rt (concat cs)"
    by (simp_all add: decoder_inv_def)
  then show ?thesis
    by (simp add: processStream_done single_chunk_text)
qed

theorem chunk_boundaries_witness:
  \<open>snd (processStream reference_runtime
      \<lparr>chunks = [''data: {"choices":[{"delta":{"con'',
                  ''tent":"Hel"}}]}'' @ [LF] @ ''da'',
                  ''ta: {"choices":[{"delta":{"content":"lo"}}]}'' @ [LF]],
       finish = StreamDone\<rparr>) = Inr ''Hello'' \<and>
   snd (processStream reference_runtime
      \<lparr>chunks = [concat [''data: {"choices":[{"delta":{"con'',
                  ''tent":"Hel"}}]}'' @ [LF] @ ''da'',
                  ''ta: {"choices":[{"delta":{"content":"lo"}}]}'' @ [LF]]],
       finish = StreamDone\<rparr>) = Inr ''Hello''\<close>
proof -
  let ?cs = \<open>[''data: {"choices":[{"delta":{"con'',
                  ''tent":"Hel"}}]}'' @ [LF] @ ''da'',
                  ''ta: {"choices":[{"delta":{"content":"lo"}}]}'' @ [LF]]\<close>
  have h: "strip_leading_newlines (stream_text reference_runtime (concat ?cs)) =
      stream_text reference_runtime (concat ?cs)"
    by code_simp
  have v: "snd (processStream reference_runtime \<lparr>chunks = ?cs, finish = StreamDone\<rparr>) = Inr ''Hello''"
    by code_simp
  show ?thesis
    using chunk_boundaries_up_to_leading_newlines [of reference_runtime ?cs] h v by auto
qed

theorem chunk_boundaries_counterexample:
  \<open>snd (processStream reference_runtime
      \<lparr>chunks = [''data: {"choices":[{"delta":{"content":"'' @ [CHR 0x5C] @ ''n"}}]}'' @ [LF],
                  ''data: {"choices":[{"delta":{"content":"'' @ [CHR 0x5C] @ ''nhi"}}]}'' @ [LF]],
       finish = StreamDone\<rparr>) = Inr ([LF] @ ''hi'') \<and>
   snd (processStream reference_runtime
      \<lparr>chunks = [''data: {"choices":[{"delta":{"content":"'' @ [CHR 0x5C] @ ''n"}}]}'' @ [LF] @
                  ''data: {"choices":[{"delta":{"content":"'' @ [CHR 0x5C] @ ''nhi"}}]}'' @ [LF]],
       finish = StreamDone\<rparr>) = Inr ''hi'' \<and>
   [LF] @ ''hi'' \<noteq> ''hi''\<close>
  by code_simp

text \<open>
  C2 (as amended).  When the stream reports completion, what is left in the buffer (a final
  line not terminated by a newline) is discarded without being interpreted: text without
  a newline at the end of the last read, or a last read without a newline, does not
  change the text given to onComplete.  A read without a newline, arriving while the
  buffer holds an unterminated line, only extends the buffer: no line is interpreted and
  onChunk is not called.
\<close>

theorem unterminated_final_line_is_dropped:
  assumes "LF \<notin> set tail"
  shows "snd (processStream rt \<lparr>chunks = cs @ [c @ tail], finish = StreamDone\<rparr>) =
           snd (processStream rt \<lparr>chunks = cs @ [c], finish = StreamDone\<rparr>) \<and>
         snd (processStream rt \<lparr>chunks = cs @ [tail], finish = StreamDone\<rparr>) =
           snd (processStream rt \<lparr>chunks = cs, finish = StreamDone\<rparr>) \<and>
         (LF \<notin> set (buffer st) \<longrightarrow>
            process_chunk rt st tail = (st\<lparr>buffer := buffer st @ tail\<rparr>, None))"
proof -
  have nl: "CHR 0x0A \<notin> set tail" using assms by (simp add: LF_def)
  have "fullResponse (feed rt initial_decoder (cs @ [c @ tail])) =
      fullResponse (feed rt initial_decoder (cs @ [c]))"
    using nl by (simp add: feed_snoc process_chunk_tail)
  then have a: "snd (processStream rt \<lparr>chunks = cs @ [c @ tail], finish = StreamDone\<rparr>) =
           snd (processStream rt \<lparr>chunks = cs @ [c], finish = StreamDone\<rparr>)"
    by (simp add: processStream_done)
  have "process_chunk rt (feed rt initial_decoder cs) tail =
      ((feed rt initial_decoder cs)\<lparr>buffer := buffer (feed rt initial_decoder cs) @ tail\<rparr>, None)"
    by (rule process_chunk_no_newline) (rule buffer_feed_no_newline, rule nl)
  then have "fullResponse (feed rt initial_decoder (cs @ [tail])) =
      fullResponse (feed rt initial_decoder cs)"
    by (simp add: feed_snoc)
  then have b: "snd (processStream rt \<lparr>chunks = cs @ [tail], finish = StreamDone\<rparr>) =
           snd (processStream rt \<lparr>chunks = cs, finish = StreamDone\<rparr>)"
    by (simp add: processStream_done)
  have c: "LF \<notin> set (buffer st) \<longrightarrow>
            process_chunk rt st tail = (st\<lparr>buffer := buffer st @ tail\<rparr>, None)"
    using process_chunk_no_newline [of st tail rt] nl by (simp add: LF_def)
  show ?thesis using a b c by simp
qed

theorem unterminated_final_line_witness:
  \<open>snd (processStream reference_runtime
      \<lparr>chunks = [(''data: {"choices":[{"delta":{"content":"Hello"}}]}'' @ [LF]) @
                  ''data: {"choices":[{"delta":{"content":" world"}}]}''],
       finish = StreamDone\<rparr>) = Inr ''Hello'' \<and>
    snd (processStream reference_runtime
      \<lparr>chunks = [''data: {"choices":[{"delta":{"content":"Hello"}}]}'' @ [LF],
                  ''data: {"choices":[{"delta":{"content":" world"}}]}''],
       finish = StreamDone\<rparr>) = Inr ''Hello'' \<and>
    process_chunk reference_runtime initial_decoder
       ''data: {"choices":[{"delta":{"content":" world"}}]}'' =
     (initial_decoder\<lparr>buffer := ''data: {"choices":[{"delta":{"content":" world"}}]}''\<rparr>, None)\<close>
proof -
  let ?tail = \<open>''data: {"choices":[{"delta":{"content":" world"}}]}''\<close>
  let ?c = \<open>''data: {"choices":[{"delta":{"content":"Hello"}}]}'' @ [LF]\<close>
  have h: "LF \<notin> set ?tail" by (simp add: LF_def)
  have b: "LF \<notin> set (buffer initial_decoder)" by (simp add: initial_decoder_def)
  have v: "snd (processStream reference_runtime \<lparr>chunks = [?c], finish = StreamDone\<rparr>) = Inr ''Hello''"
    by code_simp
  have w: "snd (processStream reference_runtime \<lparr>chunks = [] @ [?c], finish = StreamDone\<rparr>) = Inr ''Hello''"
    using v by simp
  note t = unterminated_final_line_is_dropped [OF h, of reference_runtime _ _ initial_decoder]
  have 1: "snd (processStream reference_runtime \<lparr>chunks = [?c @ ?tail], finish = StreamDone\<rparr>)
      = Inr ''Hello''"
    using t [of "[]" ?c, THEN conjunct1] w by simp
  have 2: "snd (processStream reference_runtime \<lparr>chunks = [?c, ?tail], finish = StreamDone\<rparr>)
      = Inr ''Hello''"
    using t [of "[?c]" "[]", THEN conjunct2, THEN conjunct1] v by simp
  have 3: "process_chunk reference_runtime initial_decoder ?tail =
     (initial_decoder\<lparr>buffer := ?tail\<rparr>, None)"
    using t [of "[]" "[]", THEN conjunct2, THEN conjunct2] b by (simp add: initial_decoder_def)
  show ?thesis using 1 2 3 by blast
qed

theorem final_line_flush_counterexample:
  \<open>parseSSELine reference_runtime ''data: {"choices":[{"delta":{"content":" world"}}]}''
     = JStr '' world'' \<and>
   processStream reference_runtime
      \<lparr>chunks = [''data: {"choices":[{"delta":{"content":"Hello"}}]}'' @ [LF] @
                  ''data: {"choices":[{"delta":{"content":" world"}}]}''],
       finish = StreamDone\<rparr> = ([''Hello''], Inr ''Hello'')\<close>
  by code_simp

text \<open>
  C7.  A line that is a malformed data line, a blank line or the sentinel line yields the
  empty fragment, and when it stands between two other lines the stream decodes to the
  fragments of those two lines (leading line breaks removed), onComplete being reached.
\<close>

theorem malformed_line_is_skipped:
  assumes "LF \<notin> set a" "LF \<notin> set x" "LF \<notin> set b"
    and "malformed_data_line rt x \<or> trim x = [] \<or> trim x = DATA_PREFIX @ DONE_MESSAGE"
  shows "parseSSELine rt x = JStr [] \<and>
         snd (processStream rt
               \<lparr>chunks = [a @ [LF] @ x @ [LF] @ b @ [LF]], finish = StreamDone\<rparr>) =
           Inr (strip_leading_newlines (line_fragment rt a @ line_fragment rt b))"
proof -
  have p: "parseSSELine rt x = JStr []"
    using assms(4) parseSSELine_malformed parseSSELine_blank parseSSELine_done by blast
  have "stream_text rt (a @ [CHR 0x0A] @ x @ [CHR 0x0A] @ b @ [CHR 0x0A]) =
     line_fragment rt a @ line_fragment rt x @ line_fragment rt b"
    using assms(1-3) by (intro three_lines_text) (simp_all add: LF_def)
  then have "stream_text rt (a @ [LF] @ x @ [LF] @ b @ [LF]) =
     line_fragment rt a @ line_fragment rt b"
    using p by (simp add: line_fragment_empty LF_def)
  then show ?thesis
    using p by (simp add: processStream_done single_chunk_text)
qed

theorem malformed_line_witness:
  \<open>parseSSELine reference_runtime ''data: {"choices":[{"delta":'' = JStr [] \<and>
   snd (processStream reference_runtime
         \<lparr>chunks = [''data: {"choices":[{"delta":{"content":"Hello"}}]}'' @ [LF] @
                     ''data: {"choices":[{"delta":'' @ [LF] @
                     ''data: {"choices":[{"delta":{"content":" world"}}]}'' @ [LF]],
          finish = StreamDone\<rparr>) = Inr ''Hello world''\<close>
proof -
  let ?a = \<open>''data: {"choices":[{"delta":{"content":"Hello"}}]}''\<close>
  let ?x = \<open>''data: {"choices":[{"delta":''\<close>
  let ?b = \<open>''data: {"choices":[{"delta":{"content":" world"}}]}''\<close>
  have h1: "LF \<notin> set ?a" and h2: "LF \<notin> set ?x" and h3: "LF \<notin> set ?b"
    by (simp_all add: LF_def)
  have m: "malformed_data_line reference_runtime ?x" by code_simp
  then have h4: "malformed_data_line reference_runtime ?x \<or> trim ?x = [] \<or>
      trim ?x = DATA_PREFIX @ DONE_MESSAGE" by simp
  have v: "strip_leading_newlines (line_fragment reference_runtime ?a @
      line_fragment reference_runtime ?b) = ''Hello world''" by code_simp
  show ?thesis
    using malformed_line_is_skipped [OF h1 h2 h3 h4] v by simp
qed

lemma text_field_or:
  "text_field v = Some s \<Longrightarrow> js_or rt v (JStr []) = JStr s"
  by (cases v) (auto simp: js_or_def)

lemma extractContent_text_fields:
  assumes "text_field (own_property fs ''reasoning_content'') = Some reasoning"
    and "text_field (own_property fs ''content'') = Some content"
  shows "extractContent rt (JObj fs) = Inr (JStr (reasoning @ content))"
  using assms
  by (simp add: extractContent_def text_field_or js_add_def to_primitive_def Let_def)

lemma parse_data_line_delta:
  assumes "JSON_parse rt (slice t (length DATA_PREFIX)) = Some J" "payload_delta J = JObj fs"
  shows "parse_data_line rt t = extractContent rt (JObj fs)"
  using assms
  by (auto simp: parse_data_line_def payload_delta_def split: sum.splits)

lemma parseSSELine_delta:
  assumes "data_line_of rt line J" "payload_delta J = JObj fs"
    and "extractContent rt (JObj fs) = Inr v"
  shows "parseSSELine rt line = v"
proof -
  have t: "trim line \<noteq> []"
    using assms(1) by (auto simp: data_line_of_def startsWith_def DATA_PREFIX_def)
  have "parse_data_line rt (trim line) = Inr v"
    using assms parse_data_line_delta [of rt "trim line" J fs]
    by (simp add: data_line_of_def)
  then show ?thesis
    using assms(1) t by (simp add: parseSSELine_def data_line_of_def Let_def)
qed

text \<open>
  C6.  When the delta of a valid payload is an object whose fields reasoning_content and
  content are each absent (undefined or null) or a string, extractContent returns the
  reasoning text followed by the content text, an absent field counting as the empty
  string, and this is the fragment that parseSSELine returns for the line and that the
  line adds to the chunk content.
\<close>

theorem extractContent_reasoning_before_content:
  assumes "text_field (own_property fs ''reasoning_content'') = Some reasoning"
    and "text_field (own_property fs ''content'') = Some content"
  shows "extractContent rt (JObj fs) = Inr (JStr (reasoning @ content)) \<and>
         (data_line_of rt line J \<and> payload_delta J = JObj fs \<longrightarrow>
            parseSSELine rt line = JStr (reasoning @ content) \<and>
            line_fragment rt line = reasoning @ content)"
proof -
  have e: "extractContent rt (JObj fs) = Inr (JStr (reasoning @ content))"
    using assms by (rule extractContent_text_fields)
  have "parseSSELine rt line = JStr (reasoning @ content)"
    if "data_line_of rt line J" "payload_delta J = JObj fs"
    using that e by (rule parseSSELine_delta)
  then show ?thesis using e by (auto simp: line_fragment_def)
qed

theorem extractContent_witness:
  \<open>extractContent reference_runtime
     (JObj [(''content'', JStr ''world''), (''reasoning_content'', JStr ''thinking... '')]) =
   Inr (JStr ''thinking... world'') \<and>
   parseSSELine reference_runtime
     ''data: {"choices":[{"delta":{"content":"world","reasoning_content":"thinking... "}}]}'' =
   JStr ''thinking... world'' \<and>
   extractContent reference_runtime (JObj [(''content'', JStr ''world'')]) =
   Inr (JStr ''world'')\<close>
proof -
  let ?line = \<open>''data: {"choices":[{"delta":{"content":"world","reasoning_content":"thinking... "}}]}''\<close>
  let ?J = "JObj [(''choices'', JArr [JObj [(''delta'',
      JObj [(''content'', JStr ''world''), (''reasoning_content'', JStr ''thinking... '')])]])]"
  have d: "data_line_of reference_runtime ?line ?J" by code_simp
  have pd: "payload_delta ?J =
      JObj [(''content'', JStr ''world''), (''reasoning_content'', JStr ''thinking... '')]"
    by (simp add: payload_delta_def own_property_def optional_delta_def)
  let ?fs = "[(''content'', JStr ''world''), (''reasoning_content'', JStr ''thinking... '')]"
  let ?gs = "[(''content'', JStr ''world'')]"
  have h1: "text_field (own_property ?fs ''reasoning_content'' :: decimal jsval) = Some ''thinking... ''"
    and h2: "text_field (own_property ?fs ''content'' :: decimal jsval) = Some ''world''"
    and h3: "text_field (own_property ?gs ''reasoning_content'' :: decimal jsval) = Some []"
    and h4: "text_field (own_property ?gs ''content'' :: decimal jsval) = Some ''world''"
    by (simp_all add: own_property_def)
  have p: "parseSSELine reference_runtime ?line = JStr (''thinking... '' @ ''world'')"
    using extractContent_reasoning_before_content [OF h1 h2, of reference_runtime ?line ?J] d pd
    by blast
  have a: "extractContent reference_runtime
       (JObj [(''content'', JStr ''world''), (''reasoning_content'', JStr ''thinking... '')]) =
       Inr (JStr (''thinking... '' @ ''world''))"
    using extractContent_reasoning_before_content [OF h1 h2, of reference_runtime]
    by blast
  have b: "extractContent reference_runtime (JObj [(''content'', JStr ''world'')]) =
      Inr (JStr ([] @ ''world''))"
    using extractContent_reasoning_before_content [OF h3 h4, of reference_runtime]
    by blast
  show ?thesis using p a b by simp
qed

text \<open>
  C10.  A data line whose payload is valid JSON but has no object at the path
  \<^verbatim>\<open>choices[0].delta\<close> (no \<^verbatim>\<open>choices\<close>, an empty \<^verbatim>\<open>choices\<close>, no \<^verbatim>\<open>delta\<close>, or a
  delta that is not an object) yields the empty fragment without raising, and the content
  collected from the lines of a read is the same as if the line were absent.
\<close>

theorem unexpected_shape_yields_no_fragment:
  assumes "data_line_of rt line J" and "\<not> is_object (payload_delta J)"
  shows "parseSSELine rt line = JStr [] \<and> line_fragment rt line = [] \<and>
         collect_lines rt (pre @ line # post) = collect_lines rt (pre @ post)"
proof -
  have p: "parseSSELine rt line = JStr []"
    using assms by (rule parseSSELine_not_object)
  then have f: "line_fragment rt line = []" by (rule line_fragment_empty)
  show ?thesis using p f by (simp add: collect_lines_skip)
qed

theorem unexpected_shape_witness:
  \<open>parseSSELine reference_runtime ''data: {"id":"x"}'' = JStr [] \<and>
   parseSSELine reference_runtime ''data: {"choices":[]}'' = JStr [] \<and>
   parseSSELine reference_runtime ''data: {"choices":[{"index":0}]}'' = JStr []\<close>
proof -
  have a1: \<open>data_line_of reference_runtime ''data: {"id":"x"}'' (JObj [(''id'', JStr ''x'')])\<close>
    by code_simp
  have a2: "\<not> is_object (payload_delta (JObj [(''id'', JStr ''x'')] :: decimal jsval))"
    by (simp add: payload_delta_def own_property_def)
  have b1: \<open>data_line_of reference_runtime ''data: {"choices":[]}'' (JObj [(''choices'', JArr [])])\<close>
    by code_simp
  have b2: "\<not> is_object (payload_delta (JObj [(''choices'', JArr [])] :: decimal jsval))"
    by (simp add: payload_delta_def own_property_def optional_delta_def)
  have c1: \<open>data_line_of reference_runtime ''data: {"choices":[{"index":0}]}''
      (JObj [(''choices'', JArr [JObj [(''index'', JNum (Decimal 0 0))]])])\<close>
    by code_simp
  have c2: "\<not> is_object (payload_delta
      (JObj [(''choices'', JArr [JObj [(''index'', JNum (Decimal 0 0))]])]))"
    by (simp add: payload_delta_def own_property_def optional_delta_def)
  show ?thesis
    using unexpected_shape_yields_no_fragment [OF a1 a2]
      unexpected_shape_yields_no_fragment [OF b1 b2]
      unexpected_shape_yields_no_fragment [OF c1 c2]
    by simp
qed

section \<open>Storage and controller: auxiliary facts\<close>

lemma clearHistory_items:
  "fault b \<noteq> AccessDenied \<Longrightarrow> items (clearHistory b) = (items b)(CHAT_HISTORY := None)"
  by (simp add: clearHistory_def removeItem_def)

lemma keys_distinct: "API_KEY \<noteq> CHAT_HISTORY"
  by (simp add: API_KEY_def CHAT_HISTORY_def)

lemma show_ui_proj:
  "chatHistory (show_ui st c) = chatHistory st"
  "browser (show_ui st c) = browser st"
  "requests (show_ui st c) = requests st"
  "tasks (show_ui st c) = tasks st"
  "ui (show_ui st c) = ui st @ c"
  by (simp_all add: show_ui_def)

lemma getApiKey_items: "items (snd (getApiKey b)) = items b"
  by (simp add: getApiKey_def getItem_def console_error_def)

lemma getApiKey_fault: "fault (snd (getApiKey b)) = fault b"
  by (simp add: getApiKey_def getItem_def console_error_def)

lemma getApiKey_value:
  "fault b \<noteq> AccessDenied \<Longrightarrow> getApiKey b = (items b API_KEY, b)"
  by (simp add: getApiKey_def getItem_def)

lemma removeApiKey_history: "items (removeApiKey b) CHAT_HISTORY = items b CHAT_HISTORY"
  using keys_distinct by (simp add: removeApiKey_def removeItem_def console_error_def)

lemma removeApiKey_key:
  "fault b \<noteq> AccessDenied \<Longrightarrow> items (removeApiKey b) API_KEY = None"
  by (simp add: removeApiKey_def removeItem_def)

lemma removeApiKey_fault: "fault (removeApiKey b) = fault b"
  by (simp add: removeApiKey_def removeItem_def console_error_def)

lemma saveApiKey_history: "items (snd (saveApiKey b k)) CHAT_HISTORY = items b CHAT_HISTORY"
  using keys_distinct by (simp add: saveApiKey_def setItem_def console_error_def)

lemma saveHistory_items:
  "items (saveHistory rt b v) CHAT_HISTORY = items b CHAT_HISTORY \<or>
   items (saveHistory rt b v) CHAT_HISTORY = Some (JSON_stringify rt v)"
  by (simp add: saveHistory_def saveHistory_try_def setItem_def console_error_def)

lemma saveHistory_working:
  "fault b = NoFault \<Longrightarrow>
     saveHistory rt b v = b\<lparr>items := (items b)(CHAT_HISTORY \<mapsto> JSON_stringify rt v)\<rparr>"
  by (simp add: saveHistory_def saveHistory_try_def setItem_def)

lemma saveHistory_fault: "fault (saveHistory rt b v) = fault b"
  by (simp add: saveHistory_def saveHistory_try_def setItem_def console_error_def)

lemma saveHistory_key: "items (saveHistory rt b v) API_KEY = items b API_KEY"
  using keys_distinct by (simp add: saveHistory_def saveHistory_try_def setItem_def console_error_def)

lemma clearHistory_history:
  "items (clearHistory b) CHAT_HISTORY = items b CHAT_HISTORY \<or>
   items (clearHistory b) CHAT_HISTORY = None"
  by (simp add: clearHistory_def removeItem_def console_error_def)

lemma checkApiKey_proj:
  "chatHistory (checkApiKey st) = chatHistory st"
  "requests (checkApiKey st) = requests st"
  "tasks (checkApiKey st) = tasks st"
  "browser (checkApiKey st) = snd (getApiKey (browser st))"
  by (simp_all add: checkApiKey_def show_ui_def split_beta Let_def split: option.splits)

lemma catch_proj:
  "chatHistory (handleSendMessage_catch st m) = chatHistory st"
  "requests (handleSendMessage_catch st m) = requests st"
  "tasks (handleSendMessage_catch st m) = tasks st"
  "items (browser (handleSendMessage_catch st m)) CHAT_HISTORY = items (browser st) CHAT_HISTORY"
  by (simp_all add: handleSendMessage_catch_def Let_def checkApiKey_proj show_ui_proj
      getApiKey_items removeApiKey_history)

lemma is_chat_record_message:
  "is_chat_record (message ''user'' c)" "is_chat_record (message ''assistant'' c)"
  by (simp_all add: message_def)

lemma persisted_ok_cong:
  "items b' CHAT_HISTORY = items b CHAT_HISTORY \<Longrightarrow> persisted_ok rt b' = persisted_ok rt b"
  by (simp add: persisted_ok_def)

lemma persisted_ok_save:
  assumes "persisted_ok rt b" "list_all is_chat_record h"
  shows "persisted_ok rt (saveHistory rt b (JArr h))"
  using saveHistory_items [of rt b "JArr h"] assms
  by (auto simp: persisted_ok_def split: option.splits)

lemma persisted_ok_clear:
  assumes "persisted_ok rt b"
  shows "persisted_ok rt (clearHistory b)"
  using clearHistory_history [of b] assms
  by (auto simp: persisted_ok_def split: option.splits)

lemma handleSendMessage_empty: "trim (chatInput st) = [] \<Longrightarrow> handleSendMessage rt prompt st = st"
  by (simp add: handleSendMessage_def)

lemma handleSendMessage_history:
  "trim (chatInput st) \<noteq> [] \<Longrightarrow>
     chatHistory (handleSendMessage rt prompt st) =
       chatHistory st @ [message ''user'' (trim (chatInput st))]"
  by (simp add: handleSendMessage_def Let_def split_beta show_ui_def catch_proj
      split: option.splits)

lemma handleSendMessage_persisted:
  "trim (chatInput st) \<noteq> [] \<Longrightarrow>
     items (browser (handleSendMessage rt prompt st)) CHAT_HISTORY =
       items (saveHistory rt (browser st)
                (JArr (chatHistory st @ [message ''user'' (trim (chatInput st))]))) CHAT_HISTORY"
  by (simp add: handleSendMessage_def Let_def split_beta show_ui_def catch_proj getApiKey_items
      split: option.splits)

lemma handleSendMessage_requests:
  "trim (chatInput st) \<noteq> [] \<Longrightarrow>
     requests (handleSendMessage rt prompt st) = requests st \<or>
     (\<exists>key. requests (handleSendMessage rt prompt st) =
        requests st @
          [\<lparr>bearer = key,
            messages = message ''system'' prompt #
                       chatHistory st @ [message ''user'' (trim (chatInput st))]\<rparr>])"
  by (simp add: handleSendMessage_def Let_def split_beta show_ui_def catch_proj
      split: option.splits)

lemma handleSendMessage_sends:
  assumes "trim (chatInput st) \<noteq> []" "fault (browser st) \<noteq> AccessDenied"
    and "items (browser st) API_KEY = Some key" "key \<noteq> []"
  shows "requests (handleSendMessage rt prompt st) =
           requests st @
             [\<lparr>bearer = key,
               messages = message ''system'' prompt #
                          chatHistory st @ [message ''user'' (trim (chatInput st))]\<rparr>] \<and>
         tasks (handleSendMessage rt prompt st) = tasks st @ [AwaitingResponse] \<and>
         ui (handleSendMessage rt prompt st) =
           ui st @ [RenderUserMessage (JStr (trim (chatInput st))), RenderLoading] \<and>
         browser (handleSendMessage rt prompt st) =
           saveHistory rt (browser st)
             (JArr (chatHistory st @ [message ''user'' (trim (chatInput st))]))"
proof -
  let ?b = "saveHistory rt (browser st)
             (JArr (chatHistory st @ [message ''user'' (trim (chatInput st))]))"
  have "fault ?b \<noteq> AccessDenied" using assms(2) by (simp add: saveHistory_fault)
  then have "getApiKey ?b = (Some key, ?b)"
    using assms(3) by (simp add: getApiKey_value saveHistory_key)
  then show ?thesis
    using assms(1,4) by (simp add: handleSendMessage_def Let_def show_ui_def)
qed

lemma inv_intro:
  assumes "history_inv rt prompt st"
    and "list_all is_chat_record (chatHistory st')"
    and "persisted_ok rt (browser st')"
    and "requests st' = requests st \<or> (\<exists>r. requests st' = requests st @ [r] \<and> request_ok prompt r)"
  shows "history_inv rt prompt st'"
  using assms by (auto simp: history_inv_def)

lemma inv_same_history:
  assumes "history_inv rt prompt st"
    and "chatHistory st' = chatHistory st"
    and "items (browser st') CHAT_HISTORY = items (browser st) CHAT_HISTORY"
    and "requests st' = requests st"
  shows "history_inv rt prompt st'"
  using assms persisted_ok_cong [of "browser st'" "browser st" rt]
  by (simp add: history_inv_def)

lemma inv_checkApiKey: "history_inv rt prompt st \<Longrightarrow> history_inv rt prompt (checkApiKey st)"
  by (erule inv_same_history) (simp_all add: checkApiKey_proj getApiKey_items)

lemma inv_catch:
  "history_inv rt prompt st \<Longrightarrow> history_inv rt prompt (handleSendMessage_catch st m)"
  by (erule inv_same_history) (simp_all add: catch_proj)

lemma inv_handleSendMessage:
  assumes "history_inv rt prompt st"
  shows "history_inv rt prompt (handleSendMessage rt prompt st)"
proof (cases "trim (chatInput st) = []")
  case True
  then show ?thesis using assms by (simp add: handleSendMessage_empty)
next
  case False
  let ?h = "chatHistory st @ [message ''user'' (trim (chatInput st))]"
  have h: "list_all is_chat_record ?h"
    using assms by (simp add: history_inv_def is_chat_record_message)
  have p: "persisted_ok rt (saveHistory rt (browser st) (JArr ?h))"
    using assms h by (simp add: history_inv_def persisted_ok_save)
  show ?thesis
  proof (rule inv_intro [OF assms])
    show "list_all is_chat_record (chatHistory (handleSendMessage rt prompt st))"
      using False h by (simp add: handleSendMessage_history)
    show "persisted_ok rt (browser (handleSendMessage rt prompt st))"
      using p persisted_ok_cong [OF handleSendMessage_persisted [OF False, of rt prompt], of rt]
      by simp
    show "requests (handleSendMessage rt prompt st) = requests st \<or>
      (\<exists>r. requests (handleSendMessage rt prompt st) = requests st @ [r] \<and> request_ok prompt r)"
      using handleSendMessage_requests [OF False, of rt prompt] h
      by (auto simp: request_ok_def)
  qed
qed

lemma inv_fetch_settles:
  assumes "history_inv rt prompt st"
  shows "history_inv rt prompt (fetch_settles st i r)"
proof -
  have t: "history_inv rt prompt (st\<lparr>tasks := ts\<rparr>)" for ts
    using assms by (simp add: history_inv_def)
  have u: "history_inv rt prompt (show_ui (st\<lparr>tasks := ts\<rparr>) calls)" for ts calls
    using t [of ts] by (simp add: history_inv_def show_ui_def)
  show ?thesis
    using assms t u by (simp add: fetch_settles_def inv_catch split: option.splits)
qed

lemma inv_read_settles:
  assumes "history_inv rt prompt st"
  shows "history_inv rt prompt (read_settles rt st i r)"
proof -
  have t: "history_inv rt prompt (st\<lparr>tasks := ts\<rparr>)" for ts
    using assms by (simp add: history_inv_def)
  have d: "history_inv rt prompt
      (st\<lparr>tasks := ts, chatHistory := chatHistory st @ [message ''assistant'' full],
          browser := saveHistory rt (browser st)
             (JArr (chatHistory st @ [message ''assistant'' full]))\<rparr>)" for ts full
    using assms by (simp add: history_inv_def is_chat_record_message persisted_ok_save)
  show ?thesis
  proof (cases "i < length (tasks st)")
    case False
    then show ?thesis using assms by (simp add: read_settles_def)
  next
    case True
    show ?thesis
    proof (cases "tasks st ! i")
      case AwaitingResponse
      then show ?thesis using assms True by (simp add: read_settles_def)
    next
      case Settled
      then show ?thesis using assms True by (simp add: read_settles_def)
    next
      case (Streaming dst)
      show ?thesis
      proof (cases r)
        case (Chunk c)
        have "history_inv rt prompt (show_ui (st\<lparr>tasks := ts\<rparr>) calls)" for ts calls
          using t [of ts] by (simp add: history_inv_def show_ui_def)
        then show ?thesis
          using True Streaming Chunk t
          by (simp add: read_settles_def split_beta Let_def split: option.splits)
      next
        case Done
        then show ?thesis
          using True Streaming d by (simp add: read_settles_def Let_def)
      next
        case (ReadFails m)
        then show ?thesis
          using True Streaming t by (simp add: read_settles_def inv_catch)
      qed
    qed
  qed
qed

lemma inv_handleSaveApiKey:
  assumes "history_inv rt prompt st"
  shows "history_inv rt prompt (handleSaveApiKey st)"
proof (rule inv_same_history [OF assms])
  show "chatHistory (handleSaveApiKey st) = chatHistory st"
    by (simp add: handleSaveApiKey_def Let_def show_ui_def checkApiKey_proj
        split: prod.splits option.splits)
  show "requests (handleSaveApiKey st) = requests st"
    by (simp add: handleSaveApiKey_def Let_def show_ui_def checkApiKey_proj
        split: prod.splits option.splits)
  have "items b CHAT_HISTORY = items (browser st) CHAT_HISTORY"
    if "saveApiKey (browser st) k = (e, b)" for k e b
    using saveApiKey_history [of "browser st" k] that by simp
  then show "items (browser (handleSaveApiKey st)) CHAT_HISTORY = items (browser st) CHAT_HISTORY"
    by (simp add: handleSaveApiKey_def Let_def show_ui_def checkApiKey_proj getApiKey_items
        split: prod.splits option.splits)
qed

lemma inv_clearApiKey:
  assumes "history_inv rt prompt st"
  shows "history_inv rt prompt (clearApiKey_confirmed st)"
  using assms
  by (rule inv_same_history)
     (simp_all add: clearApiKey_confirmed_def show_ui_proj checkApiKey_proj getApiKey_items
       removeApiKey_history)

lemma inv_clearHistory:
  assumes "history_inv rt prompt st"
  shows "history_inv rt prompt (clearHistory_confirmed st)"
  using assms
  by (simp add: clearHistory_confirmed_def show_ui_def history_inv_def persisted_ok_clear)

lemma inv_step:
  assumes "history_inv rt prompt st"
  shows "history_inv rt prompt (step rt prompt st ev)"
proof (cases ev)
  case (Input v)
  have "history_inv rt prompt (handleInputChange (st\<lparr>chatInput := v\<rparr>))"
    using assms by (simp add: history_inv_def handleInputChange_def)
  then show ?thesis using Input by simp
next
  case (KeyInput v)
  then show ?thesis using assms by (simp add: history_inv_def)
next
  case CompositionStart
  then show ?thesis using assms by (simp add: history_inv_def)
next
  case CompositionEnd
  then show ?thesis using assms by (simp add: history_inv_def)
next
  case (StorageFault f)
  have "persisted_ok rt ((browser st)\<lparr>fault := f\<rparr>) = persisted_ok rt (browser st)"
    by (rule persisted_ok_cong) simp
  then show ?thesis using assms StorageFault by (simp add: history_inv_def)
qed (use assms in \<open>simp_all add: inv_handleSendMessage inv_handleSaveApiKey inv_clearApiKey
      inv_clearHistory inv_checkApiKey inv_fetch_settles inv_read_settles\<close>)

lemma inv_run:
  "history_inv rt prompt st \<Longrightarrow> history_inv rt prompt (run_events rt prompt st evs)"
  unfolding run_events_def
  by (induction evs arbitrary: st) (simp_all add: inv_step)

lemma catch_401:
  assumes "fault (browser st) \<noteq> AccessDenied"
  shows "items (browser (handleSendMessage_catch st ''401'')) API_KEY = None \<and>
         ui (handleSendMessage_catch st ''401'') =
           ui st @ [RemoveLoading, RenderError AuthFailedText, ShowAuthView]"
proof -
  let ?b = "removeApiKey (browser st)"
  have "fault ?b \<noteq> AccessDenied" using assms by (simp add: removeApiKey_fault)
  then have "getApiKey ?b = (None, ?b)"
    using assms by (simp add: getApiKey_value removeApiKey_key)
  then show ?thesis
    using assms
    by (simp add: handleSendMessage_catch_def Let_def checkApiKey_def show_ui_def removeApiKey_key)
qed

lemma catch_generic:
  assumes "m \<noteq> ''401''"
  shows "handleSendMessage_catch st m =
           show_ui st [RemoveLoading, RenderError (GenericErrorText m)]"
  using assms by (simp add: handleSendMessage_catch_def Let_def)

lemma settled_401: "sendMessage_settled (Response 401) = Some ''401''"
  by (simp add: sendMessage_settled_def response_ok_def)

lemma settled_other:
  "\<not> response_ok status \<Longrightarrow> status \<noteq> 401 \<Longrightarrow>
     sendMessage_settled (Response status) = Some (''API Error: '' @ show_nat status)"
  by (simp add: sendMessage_settled_def)

section \<open>Properties of the storage manager\<close>

text \<open>
  C5 (as amended).  When the storage is accessible and the stored history record is a
  non-empty string that JSON.parse rejects, getHistory catches the SyntaxError, returns
  the empty history and removes the record, so that an immediate second call returns the
  empty history as well.  An empty stored string is not decoded at all: getHistory
  returns the empty history and leaves the record in place.
\<close>

theorem getHistory_self_heals:
  assumes "fault b \<noteq> AccessDenied" and "items b CHAT_HISTORY = Some h"
  shows "(h \<noteq> [] \<and> JSON_parse rt h = None \<longrightarrow>
            getHistory_try rt b = Inl SyntaxError \<and>
            fst (getHistory rt b) = JArr [] \<and>
            items (snd (getHistory rt b)) CHAT_HISTORY = None \<and>
            fst (getHistory rt (snd (getHistory rt b))) = JArr []) \<and>
         (h = [] \<longrightarrow> getHistory rt b = (JArr [], b))"
  using assms
  by (auto simp: getHistory_def getHistory_try_def getItem_def clearHistory_def removeItem_def
      console_error_def)

theorem getHistory_self_heals_witness:
  "fst (getHistory reference_runtime (working_browser [CHAT_HISTORY \<mapsto> ''[{'']))
     = JArr [] \<and>
   items (snd (getHistory reference_runtime (working_browser [CHAT_HISTORY \<mapsto> ''[{''])))
     CHAT_HISTORY = None \<and>
   fst (getHistory reference_runtime
     (snd (getHistory reference_runtime (working_browser [CHAT_HISTORY \<mapsto> ''[{''])))) = JArr []"
proof -
  let ?b = "working_browser [CHAT_HISTORY \<mapsto> ''[{'']"
  have h1: "fault ?b \<noteq> AccessDenied" by (simp add: working_browser_def)
  have h2: "items ?b CHAT_HISTORY = Some ''[{''" by (simp add: working_browser_def)
  have h3: "''[{'' \<noteq> [] \<and> JSON_parse reference_runtime ''[{'' = None" by code_simp
  show ?thesis
    using getHistory_self_heals [OF h1 h2, of reference_runtime] h3 by blast
qed

theorem getHistory_empty_record_counterexample:
  "JSON_parse reference_runtime [] = None \<and>
   fst (getHistory reference_runtime (working_browser [CHAT_HISTORY \<mapsto> []])) = JArr [] \<and>
   items (snd (getHistory reference_runtime (working_browser [CHAT_HISTORY \<mapsto> []])))
     CHAT_HISTORY = Some []"
proof -
  have "JSON_parse reference_runtime [] = None" by code_simp
  then show ?thesis
    by (simp add: getHistory_def getHistory_try_def getItem_def working_browser_def)
qed

text \<open>
  C9 (as amended).  When a write to the storage fails, saveHistory logs the failure and
  returns normally, the storage being unchanged.  saveApiKey logs the failure and then
  raises a new error; its caller handleSaveApiKey catches that error and shows the
  failure toast, so the handler returns normally and the session goes on.
\<close>

theorem storage_write_failures:
  assumes "fault b \<noteq> NoFault"
  shows "saveHistory_try rt b history = Inl DOMException \<and>
         saveHistory rt b history = console_error b ''Failed to save history:'' \<and>
         saveApiKey b key = (Some SaveKeyError, console_error b ''Failed to save API key:'') \<and>
         (browser st = b \<and> trim (apiKeyInput st) \<noteq> [] \<longrightarrow>
            handleSaveApiKey st =
              show_ui (st\<lparr>browser := console_error b ''Failed to save API key:''\<rparr>)
                [ShowToast SaveFailed])"
  using assms
  by (auto simp: saveHistory_try_def saveHistory_def saveApiKey_def setItem_def
      handleSaveApiKey_def Let_def)

theorem storage_write_failures_witness:
  "saveHistory reference_runtime \<lparr>items = Map.empty, fault = QuotaExceeded, console = []\<rparr>
      (JArr [message ''user'' ''hi'']) =
     \<lparr>items = Map.empty, fault = QuotaExceeded, console = [''Failed to save history:'']\<rparr> \<and>
   handleSaveApiKey
      ((new_controller \<lparr>items = Map.empty, fault = QuotaExceeded, console = []\<rparr>)
         \<lparr>apiKeyInput := ''sk-1''\<rparr> :: decimal controller) =
     show_ui ((new_controller \<lparr>items = Map.empty, fault = QuotaExceeded, console = []\<rparr>)
         \<lparr>apiKeyInput := ''sk-1'',
          browser := \<lparr>items = Map.empty, fault = QuotaExceeded,
                      console = [''Failed to save API key:'']\<rparr>\<rparr>)
       [ShowToast SaveFailed]"
proof -
  let ?b = "\<lparr>items = Map.empty, fault = QuotaExceeded, console = []\<rparr>"
  let ?st = "(new_controller ?b)\<lparr>apiKeyInput := ''sk-1''\<rparr> :: decimal controller"
  have h: "fault ?b \<noteq> NoFault" by simp
  have t: "browser ?st = ?b \<and> trim (apiKeyInput ?st) \<noteq> []"
    by (simp add: new_controller_def trim_def is_js_space_def)
  show ?thesis
    using storage_write_failures [OF h, of reference_runtime "JArr [message ''user'' ''hi'']" "''sk-1''" ?st] t
    by (simp add: console_error_def new_controller_def)
qed

theorem saveApiKey_raises_counterexample:
  "fst (saveApiKey \<lparr>items = Map.empty, fault = QuotaExceeded, console = []\<rparr> ''sk-1'') =
     Some SaveKeyError"
  by (simp add: saveApiKey_def setItem_def)

section \<open>Properties of the controller\<close>

text \<open>
  C3 (as amended).  handleSendMessage has no guard on requests in flight.  While an
  earlier invocation is still sending or streaming, a call is rejected only when the
  trimmed input is empty, and then nothing changes; otherwise the user message is
  appended to the history, the history is persisted when the storage works, and when an
  API key is stored a further request is issued and a further invocation is suspended.
\<close>

theorem submission_while_in_flight_is_accepted:
  assumes "in_flight st"
  shows "(trim (chatInput st) = [] \<longrightarrow> handleSendMessage rt prompt st = st) \<and>
         (trim (chatInput st) \<noteq> [] \<longrightarrow>
            chatHistory (handleSendMessage rt prompt st) =
              chatHistory st @ [message ''user'' (trim (chatInput st))] \<and>
            (fault (browser st) = NoFault \<longrightarrow>
               items (browser (handleSendMessage rt prompt st)) CHAT_HISTORY =
                 Some (JSON_stringify rt
                   (JArr (chatHistory st @ [message ''user'' (trim (chatInput st))])))) \<and>
            (\<forall>key. fault (browser st) \<noteq> AccessDenied \<and>
                   items (browser st) API_KEY = Some key \<and> key \<noteq> [] \<longrightarrow>
               requests (handleSendMessage rt prompt st) =
                 requests st @
                   [\<lparr>bearer = key,
                     messages = message ''system'' prompt #
                       chatHistory st @ [message ''user'' (trim (chatInput st))]\<rparr>] \<and>
               tasks (handleSendMessage rt prompt st) = tasks st @ [AwaitingResponse]))"
proof -
  have a: "items (browser (handleSendMessage rt prompt st)) CHAT_HISTORY =
        Some (JSON_stringify rt
          (JArr (chatHistory st @ [message ''user'' (trim (chatInput st))])))"
    if "trim (chatInput st) \<noteq> []" "fault (browser st) = NoFault"
    using that by (simp add: handleSendMessage_persisted saveHistory_working)
  show ?thesis
    using a handleSendMessage_sends [of st _ rt prompt]
    by (auto simp: handleSendMessage_empty handleSendMessage_history)
qed

theorem submission_while_in_flight_witness:
  \<open>in_flight (run_events reference_runtime ''You are an AI assistant.''
      (new_controller (working_browser [API_KEY \<mapsto> ''sk-1'']))
      [Input ''first'', PressEnter False, FetchSettles 0 (Response 200),
       Read 0 (Chunk (''data: {"choices":[{"delta":{"content":"Hi"}}]}'' @ [LF])),
       Input ''second'']) \<and>
   requests (handleSendMessage reference_runtime ''You are an AI assistant.''
     (run_events reference_runtime ''You are an AI assistant.''
        (new_controller (working_browser [API_KEY \<mapsto> ''sk-1'']))
        [Input ''first'', PressEnter False, FetchSettles 0 (Response 200),
         Read 0 (Chunk (''data: {"choices":[{"delta":{"content":"Hi"}}]}'' @ [LF])),
         Input ''second''])) =
     [\<lparr>bearer = ''sk-1'',
       messages = [message ''system'' ''You are an AI assistant.'', message ''user'' ''first'']\<rparr>,
      \<lparr>bearer = ''sk-1'',
       messages = [message ''system'' ''You are an AI assistant.'', message ''user'' ''first'',
                   message ''user'' ''second'']\<rparr>]\<close>
proof -
  let ?p = "''You are an AI assistant.''"
  let ?st = \<open>run_events reference_runtime ?p
      (new_controller (working_browser [API_KEY \<mapsto> ''sk-1'']))
      [Input ''first'', PressEnter False, FetchSettles 0 (Response 200),
       Read 0 (Chunk (''data: {"choices":[{"delta":{"content":"Hi"}}]}'' @ [LF])),
       Input ''second'']\<close>
  have f: "in_flight ?st" by code_simp
  have i: "trim (chatInput ?st) = ''second''" by code_simp
  have k: "fault (browser ?st) \<noteq> AccessDenied \<and> items (browser ?st) API_KEY = Some ''sk-1''"
    by code_simp
  have h: "chatHistory ?st = [message ''user'' ''first'']" by code_simp
  have r: "requests ?st = [\<lparr>bearer = ''sk-1'',
       messages = [message ''system'' ?p, message ''user'' ''first'']\<rparr>]" by code_simp
  show ?thesis
    using submission_while_in_flight_is_accepted [OF f, of reference_runtime ?p] f i k h r
    by simp
qed

theorem one_active_request_counterexample:
  \<open>in_flight (run_events reference_runtime ''You are an AI assistant.''
      (new_controller (working_browser [API_KEY \<mapsto> ''sk-1'']))
      [Input ''first'', PressEnter False]) \<and>
   chatHistory (run_events reference_runtime ''You are an AI assistant.''
      (new_controller (working_browser [API_KEY \<mapsto> ''sk-1'']))
      [Input ''first'', PressEnter False, Input ''second'', PressEnter False]) =
     [message ''user'' ''first'', message ''user'' ''second''] \<and>
   items (browser (run_events reference_runtime ''You are an AI assistant.''
      (new_controller (working_browser [API_KEY \<mapsto> ''sk-1'']))
      [Input ''first'', PressEnter False, Input ''second'', PressEnter False])) CHAT_HISTORY =
     Some ''[{"role":"user","content":"first"},{"role":"user","content":"second"}]'' \<and>
   length (requests (run_events reference_runtime ''You are an AI assistant.''
      (new_controller (working_browser [API_KEY \<mapsto> ''sk-1'']))
      [Input ''first'', PressEnter False, Input ''second'', PressEnter False])) = 2\<close>
  by code_simp

text \<open>
  C4.  A message is submitted with a working storage and a stored API key, and the
  response to its request has status 401.  Afterwards the stored key is absent, the
  persisted history is the serialisation of the earlier history followed by the user
  message, the history in memory has the user message as its last record (no assistant
  message), and the user interface has received the authentication error text followed
  by the switch to the authentication view.  Any other failure status yields the generic
  error text with the status, no switch of view, and leaves the key stored.
\<close>

theorem authentication_failure_clears_credential:
  assumes "fault (browser st) = NoFault" and "items (browser st) API_KEY = Some key"
    and "key \<noteq> []" and "trim (chatInput st) \<noteq> []"
  shows "let user = message ''user'' (trim (chatInput st));
             st1 = handleSendMessage rt prompt st;
             st2 = fetch_settles st1 (length (tasks st)) (Response 401)
         in items (browser st2) API_KEY = None \<and>
            items (browser st2) CHAT_HISTORY =
              Some (JSON_stringify rt (JArr (chatHistory st @ [user]))) \<and>
            chatHistory st2 = chatHistory st @ [user] \<and>
            ui st2 = ui st1 @ [RemoveLoading, RenderError AuthFailedText, ShowAuthView] \<and>
            (\<forall>status. \<not> response_ok status \<and> status \<noteq> 401 \<longrightarrow>
               ui (fetch_settles st1 (length (tasks st)) (Response status)) =
                 ui st1 @ [RemoveLoading,
                           RenderError (GenericErrorText (''API Error: '' @ show_nat status))] \<and>
               items (browser (fetch_settles st1 (length (tasks st)) (Response status))) API_KEY =
                 Some key)"
proof -
  let ?user = "message ''user'' (trim (chatInput st))"
  let ?st1 = "handleSendMessage rt prompt st"
  let ?i = "length (tasks st)"
  let ?w = "?st1\<lparr>tasks := (tasks ?st1)[?i := Settled]\<rparr>"
  have nd: "fault (browser st) \<noteq> AccessDenied" using assms(1) by simp
  note s = handleSendMessage_sends [OF assms(4) nd assms(2) assms(3), of rt prompt]
  have tk: "tasks ?st1 = tasks st @ [AwaitingResponse]" using s by simp
  have br: "browser ?st1 = saveHistory rt (browser st) (JArr (chatHistory st @ [?user]))"
    using s by simp
  have fl: "fault (browser ?st1) = NoFault" using br assms(1) by (simp add: saveHistory_fault)
  have ky: "items (browser ?st1) API_KEY = Some key"
    using br assms(2) by (simp add: saveHistory_key)
  have hs: "items (browser ?st1) CHAT_HISTORY =
      Some (JSON_stringify rt (JArr (chatHistory st @ [?user])))"
    using br assms(1) by (simp add: saveHistory_working)
  have ch: "chatHistory ?st1 = chatHistory st @ [?user]"
    using assms(4) by (simp add: handleSendMessage_history)
  have aw: "?i < length (tasks ?st1) \<and> tasks ?st1 ! ?i = AwaitingResponse"
    using tk by simp
  have f401: "fetch_settles ?st1 ?i (Response 401) = handleSendMessage_catch ?w ''401''"
    using aw by (simp add: fetch_settles_def settled_401)
  have fo: "fetch_settles ?st1 ?i (Response status) =
      show_ui ?w [RemoveLoading, RenderError (GenericErrorText (''API Error: '' @ show_nat status))]"
    if "\<not> response_ok status" "status \<noteq> 401" for status
    using aw that by (simp add: fetch_settles_def settled_other catch_generic)
  have c: "items (browser (handleSendMessage_catch ?w ''401'')) API_KEY = None \<and>
         ui (handleSendMessage_catch ?w ''401'') =
           ui ?w @ [RemoveLoading, RenderError AuthFailedText, ShowAuthView]"
    by (rule catch_401) (simp add: fl)
  have 1: "items (browser (fetch_settles ?st1 ?i (Response 401))) API_KEY = None"
    using c f401 by simp
  have 2: "items (browser (fetch_settles ?st1 ?i (Response 401))) CHAT_HISTORY =
      Some (JSON_stringify rt (JArr (chatHistory st @ [?user])))"
    using hs f401 by (simp add: catch_proj)
  have 3: "chatHistory (fetch_settles ?st1 ?i (Response 401)) = chatHistory st @ [?user]"
    using ch f401 by (simp add: catch_proj)
  have 4: "ui (fetch_settles ?st1 ?i (Response 401)) =
      ui ?st1 @ [RemoveLoading, RenderError AuthFailedText, ShowAuthView]"
    using c f401 by simp
  have 5: "ui (fetch_settles ?st1 ?i (Response status)) =
        ui ?st1 @ [RemoveLoading,
                   RenderError (GenericErrorText (''API Error: '' @ show_nat status))] \<and>
      items (browser (fetch_settles ?st1 ?i (Response status))) API_KEY = Some key"
    if "\<not> response_ok status \<and> status \<noteq> 401" for status
    using fo [of status] that ky by (simp add: show_ui_def)
  show ?thesis
    unfolding Let_def using 1 2 3 4 5 by blast
qed

theorem authentication_failure_witness:
  \<open>let st1 = run_events reference_runtime ''You are an AI assistant.''
       (new_controller (working_browser [API_KEY \<mapsto> ''sk-1'']))
       [Input ''hello'', PressEnter False];
       st2 = fetch_settles st1 0 (Response 401)
   in items (browser st2) API_KEY = None \<and>
      items (browser st2) CHAT_HISTORY = Some ''[{"role":"user","content":"hello"}]'' \<and>
      chatHistory st2 = [message ''user'' ''hello''] \<and>
      ui st2 = [RenderUserMessage (JStr ''hello''), RenderLoading, RemoveLoading,
                RenderError AuthFailedText, ShowAuthView] \<and>
      ui (fetch_settles st1 0 (Response 500)) =
        [RenderUserMessage (JStr ''hello''), RenderLoading, RemoveLoading,
         RenderError (GenericErrorText ''API Error: 500'')]\<close>
proof -
  let ?p = "''You are an AI assistant.''"
  let ?st = "run_events reference_runtime ?p
       (new_controller (working_browser [API_KEY \<mapsto> ''sk-1''])) [Input ''hello'']"
  have h1: "fault (browser ?st) = NoFault" by code_simp
  have h2: "items (browser ?st) API_KEY = Some ''sk-1''" by code_simp
  have h3: "''sk-1'' \<noteq> []" by simp
  have h4: "trim (chatInput ?st) \<noteq> []" by code_simp
  have e1: "run_events reference_runtime ?p
       (new_controller (working_browser [API_KEY \<mapsto> ''sk-1'']))
       [Input ''hello'', PressEnter False] = handleSendMessage reference_runtime ?p ?st"
    by (simp add: run_events_def new_controller_def handleInputChange_def)
  have e2: "length (tasks ?st) = 0" by code_simp
  have e3: "chatHistory ?st = []" by code_simp
  have e4: "trim (chatInput ?st) = ''hello''" by code_simp
  have e5: "ui (handleSendMessage reference_runtime ?p ?st) =
      [RenderUserMessage (JStr ''hello''), RenderLoading]" by code_simp
  have e6: \<open>JSON_stringify reference_runtime (JArr [message ''user'' ''hello'']) =
      ''[{"role":"user","content":"hello"}]''\<close> by code_simp
  have e7: "\<not> response_ok 500 \<and> (500::nat) \<noteq> 401" by (simp add: response_ok_def)
  have e8: "show_nat 500 = ''500''" by code_simp
  let ?st1 = "handleSendMessage reference_runtime ?p ?st"
  note t = authentication_failure_clears_credential
    [OF h1 h2 h3 h4, of reference_runtime ?p, unfolded Let_def e2 e3 e4 e5]
  have a: "items (browser (fetch_settles ?st1 0 (Response 401))) API_KEY = None"
    using t by blast
  have b: "items (browser (fetch_settles ?st1 0 (Response 401))) CHAT_HISTORY =
      Some (JSON_stringify reference_runtime (JArr ([] @ [message ''user'' ''hello''])))"
    using t by blast
  have c: "chatHistory (fetch_settles ?st1 0 (Response 401)) = [] @ [message ''user'' ''hello'']"
    using t by blast
  have d: "ui (fetch_settles ?st1 0 (Response 401)) =
      [RenderUserMessage (JStr ''hello''), RenderLoading] @
      [RemoveLoading, RenderError AuthFailedText, ShowAuthView]"
    using t by blast
  have g: "ui (fetch_settles ?st1 0 (Response 500)) =
      [RenderUserMessage (JStr ''hello''), RenderLoading] @
      [RemoveLoading, RenderError (GenericErrorText (''API Error: '' @ show_nat 500))]"
    using t e7 by blast
  show ?thesis
    unfolding Let_def e1 using a b c d g by (simp add: e6 e8)
qed

text \<open>
  C8.  The history invariant is preserved by every event: starting from a state in which
  the history in memory holds only user and assistant records and the persisted record
  (if any) is the serialisation of such a list, every sequence of events leads to a state
  of the same kind, in which moreover every request sent so far carried the system message
  followed by user and assistant records only.  So the system message appears in requests
  and is never written to the storage.
\<close>

theorem persisted_history_has_no_system_message:
  assumes "history_inv rt prompt st"
  shows "history_inv rt prompt (run_events rt prompt st evs)"
  using assms by (rule inv_run)

theorem persisted_history_witness:
  \<open>let final = run_events reference_runtime ''You are an AI assistant.''
       (new_controller (working_browser [API_KEY \<mapsto> ''sk-1'']))
       [Input ''hello'', PressEnter False, FetchSettles 0 (Response 200),
        Read 0 (Chunk (''data: {"choices":[{"delta":{"content":"Hi!"}}]}'' @ [LF])),
        Read 0 Done]
   in history_inv reference_runtime ''You are an AI assistant.'' final \<and>
      chatHistory final = [message ''user'' ''hello'', message ''assistant'' ''Hi!''] \<and>
      items (browser final) CHAT_HISTORY =
        Some ''[{"role":"user","content":"hello"},{"role":"assistant","content":"Hi!"}]'' \<and>
      map messages (requests final) =
        [[message ''system'' ''You are an AI assistant.'', message ''user'' ''hello'']]\<close>
proof -
  let ?p = "''You are an AI assistant.''"
  let ?st = "new_controller (working_browser [API_KEY \<mapsto> ''sk-1'']) :: decimal controller"
  let ?evs = \<open>[Input ''hello'', PressEnter False, FetchSettles 0 (Response 200),
        Read 0 (Chunk (''data: {"choices":[{"delta":{"content":"Hi!"}}]}'' @ [LF])),
        Read 0 Done]\<close>
  have i: "history_inv reference_runtime ?p ?st"
    by (simp add: history_inv_def new_controller_def working_browser_def persisted_ok_def
        CHAT_HISTORY_def API_KEY_def)
  have a: "chatHistory (run_events reference_runtime ?p ?st ?evs) =
      [message ''user'' ''hello'', message ''assistant'' ''Hi!'']" by code_simp
  have b: \<open>items (browser (run_events reference_runtime ?p ?st ?evs)) CHAT_HISTORY =
        Some ''[{"role":"user","content":"hello"},{"role":"assistant","content":"Hi!"}]''\<close>
    by code_simp
  have c: "map messages (requests (run_events reference_runtime ?p ?st ?evs)) =
        [[message ''system'' ?p, message ''user'' ''hello'']]" by code_simp
  show ?thesis
    unfolding Let_def
    using persisted_history_has_no_system_message [OF i, of ?evs] a b c by blast
qed

end
